theory Spec2Isabelle
  imports Main
begin

section \<open>The two-tier time-limited file cache of index.js\<close>

text \<open>
  The module exports a factory that returns a Proxy. Writing \<^verbatim>\<open>cache[k] = v\<close> runs
  \<^verbatim>\<open>handler.set\<close>, reading \<^verbatim>\<open>cache[k]\<close> runs \<^verbatim>\<open>handler.get\<close>. All
  state lives in six objects of the closure, keyed by file name. The file system, the
  timers of the runtime and the three observer callbacks are outside the module: the
  model records what the module asks of them (operations issued, timers armed, observer
  calls made) and takes what they answer (an operation completing with a result, a timer
  firing) as events.
\<close>

subsection \<open>Data\<close>

type_synonym key = string

text \<open>
  A value given to the cache or read from a file. The source compares values with
  \<^verbatim>\<open>!==\<close>, which on Buffer objects is identity of the object: a buffer carries the
  identity of its object beside its bytes, so that equality of \<open>content\<close> is the
  comparison of the source. \<open>Null\<close> is JavaScript's \<^verbatim>\<open>null\<close>, which the source
  itself stores (line 51) and resolves futures with (line 79). \<^verbatim>\<open>undefined\<close> is not
  a content: an absent entry of a map is \<open>None\<close>. The content given to the cache is
  documented to be a Buffer (line 12); what \<^verbatim>\<open>fs.writeFile\<close> does with another value is
  not modelled.
\<close>

datatype content = Null | Buffer nat string

text \<open>An error object: two that the file system hands to a callback, and the TypeError
  with which \<^verbatim>\<open>fs\<close> rejects an argument at the call.\<close>

datatype io_error = ENOENT | EIO | ERR_INVALID_ARG_TYPE

text \<open>What the file system answers to an operation. A write that succeeds answers
  \<open>Ok Null\<close>; its payload is not read.\<close>

datatype io_result = Err io_error | Ok content

type_synonym pid = nat

text \<open>The three closures handed to \<^verbatim>\<open>readFile\<close>: line 49 (in \<^verbatim>\<open>handler.set\<close>,
  capturing the content to write), line 77 (in \<^verbatim>\<open>handler.get\<close>, capturing the
  \<^verbatim>\<open>resolve\<close> of the new promise), line 153 (in the file timer).\<close>

datatype callback = SetRead content | GetRead pid | EvictRead

text \<open>An operation handed to \<^verbatim>\<open>fs\<close> and not yet completed. There is none for a
  removal: the call of \<^verbatim>\<open>fs.rm\<close> at line 173 throws before anything is handed over
  (see \<open>removeFile\<close>).\<close>

datatype io_op = ReadFile key callback | WriteFile key content

datatype promise = Pending | Resolved content

text \<open>A call of one of the observers; \<^verbatim>\<open>onMemoryRemove\<close> is given
  \<^verbatim>\<open>memoryCaches[fileName]\<close>, which may be absent.\<close>

datatype observed =
    OnSet key content
  | OnMemoryRemove key "content option"
  | OnFileRemove key content

text \<open>The parameters of the factory. An observer is a function or \<^verbatim>\<open>null\<close>; the
  module only tests which. Observers are taken not to call back into the cache.
  \<^verbatim>\<open>cacheDir\<close> only prefixes the path of every file and is left out. The times to live
  are taken to be delays that \<^verbatim>\<open>setTimeout\<close> keeps as they are (from 1 to
  \<open>2^31 - 1\<close> milliseconds).\<close>

record config =
  onSet :: bool
  onMemoryRemove :: bool
  memoryTTL :: nat
  onFileRemove :: bool
  fileTTL :: nat

text \<open>
  The six maps of the closure, and the world around them. A timer handle is modelled by
  the time at which it is due: each slot of \<^verbatim>\<open>memoryTimeLimits\<close> and
  \<^verbatim>\<open>fileTimeLimits\<close> holds the only armed timer of its key and tier, since the
  source clears the handle in the slot before it stores a new one there, so
  \<^verbatim>\<open>clearTimeout\<close> followed by the assignment is the update of the slot.
  \<^verbatim>\<open>memoryTimeLimits[k]\<close> is set to \<^verbatim>\<open>null\<close> when its timer has fired (line
  139): \<open>Some None\<close>. \<open>promises\<close> holds every promise created, a promise's identity
  being its index. A key with an entry in \<^verbatim>\<open>isFileAccessing\<close> is called marked.
  Keys are taken not to name a member of \<^verbatim>\<open>Object.prototype\<close> (such as
  \<^verbatim>\<open>constructor\<close>), which the six objects of the source inherit: for every other key
  an object without an entry answers \<^verbatim>\<open>undefined\<close>.
\<close>

record state =
  promiseCaches :: "key \<rightharpoonup> pid"
  memoryCaches :: "key \<rightharpoonup> content"
  memoryTimeLimits :: "key \<rightharpoonup> nat option"
  fileTimeLimits :: "key \<rightharpoonup> nat"
  isFileAccessing :: "key \<rightharpoonup> bool"
  hasQueue :: "key \<rightharpoonup> content"
  promises :: "promise list"
  inflight :: "io_op list"
  calls :: "observed list"
  now :: nat

definition init :: state where
  "init = \<lparr>promiseCaches = Map.empty, memoryCaches = Map.empty,
           memoryTimeLimits = Map.empty, fileTimeLimits = Map.empty,
           isFileAccessing = Map.empty, hasQueue = Map.empty,
           promises = [], inflight = [], calls = [], now = 0\<rparr>"

definition defaults :: config where
  "defaults = \<lparr>onSet = False, onMemoryRemove = False, memoryTTL = 10000,
               onFileRemove = False, fileTTL = 600000\<rparr>"

subsection \<open>Issuing operations and arming timers\<close>

text \<open>Lines 94--97: the part of \<^verbatim>\<open>readFile\<close> that runs at the call.\<close>

definition readFile :: "key \<Rightarrow> callback \<Rightarrow> state \<Rightarrow> state" where
  "readFile fileName cb s =
     s\<lparr>isFileAccessing := (isFileAccessing s)(fileName \<mapsto> True),
       inflight := inflight s @ [ReadFile fileName cb]\<rparr>"

text \<open>Lines 170--173. Line 172 marks the key. Line 173 calls
  \<^verbatim>\<open>fs.rm(path, null, callback)\<close>, and \<^verbatim>\<open>fs.rm\<close> validates its options before it
  does anything else: \<^verbatim>\<open>null\<close> is rejected with a TypeError thrown at the call. So the
  call throws, with the mark set; no removal is handed to the file system, and the
  callback of lines 174--177 never runs (it has no counterpart here). \<open>Inl\<close> carries
  the error thrown and the state at the throw.\<close>

definition removeFile :: "key \<Rightarrow> state \<Rightarrow> (io_error \<times> state) + state" where
  "removeFile fileName s =
     Inl (ERR_INVALID_ARG_TYPE,
          s\<lparr>isFileAccessing := (isFileAccessing s)(fileName \<mapsto> True)\<rparr>)"

text \<open>Lines 132--135 and 144--147: cancel the timer of the slot and arm a new one.\<close>

definition scheduleRemoveMemoryCache :: "config \<Rightarrow> key \<Rightarrow> state \<Rightarrow> state" where
  "scheduleRemoveMemoryCache cfg fileName s =
     s\<lparr>memoryTimeLimits := (memoryTimeLimits s)(fileName \<mapsto> Some (now s + memoryTTL cfg))\<rparr>"

definition scheduleRemoveFileCache :: "config \<Rightarrow> key \<Rightarrow> state \<Rightarrow> state" where
  "scheduleRemoveFileCache cfg fileName s =
     s\<lparr>fileTimeLimits := (fileTimeLimits s)(fileName \<mapsto> now s + fileTTL cfg)\<rparr>"

text \<open>Lines 105--111 and 117: the part of \<^verbatim>\<open>writeFile\<close> that runs at the call.\<close>

definition writeFile :: "config \<Rightarrow> key \<Rightarrow> content \<Rightarrow> state \<Rightarrow> state" where
  "writeFile cfg fileName newContent s =
     (if memoryCaches s fileName \<noteq> Some newContent then
        scheduleRemoveMemoryCache cfg fileName
          (s\<lparr>memoryCaches := (memoryCaches s)(fileName \<mapsto> newContent),
             isFileAccessing := (isFileAccessing s)(fileName \<mapsto> True),
             inflight := inflight s @ [WriteFile fileName newContent]\<rparr>)
      else s)"

subsection \<open>The traps\<close>

text \<open>Lines 37--62. The trap returns no value; what the assignment expression of the
  caller makes of that is outside the model.\<close>

definition handler_set :: "config \<Rightarrow> key \<Rightarrow> content \<Rightarrow> state \<Rightarrow> state" where
  "handler_set cfg fileName content s =
     (let s1 = (if onSet cfg then s\<lparr>calls := calls s @ [OnSet fileName content]\<rparr> else s) in
      if isFileAccessing s1 fileName \<noteq> None then
        (let s2 = s1\<lparr>isFileAccessing := (isFileAccessing s1)(fileName \<mapsto> True)\<rparr> in
         if memoryCaches s2 fileName \<noteq> None then writeFile cfg fileName content s2
         else readFile fileName (SetRead content) s2)
      else s1\<lparr>hasQueue := (hasQueue s1)(fileName \<mapsto> content)\<rparr>)"

text \<open>Lines 64--87. The result is the promise returned and the state left.\<close>

definition handler_get :: "config \<Rightarrow> key \<Rightarrow> state \<Rightarrow> pid \<times> state" where
  "handler_get cfg fileName s =
     (case promiseCaches s fileName of
        Some p \<Rightarrow> (p, s)
      | None \<Rightarrow>
          (case memoryCaches s fileName of
             Some v \<Rightarrow>
               (let p = length (promises s);
                    s1 = s\<lparr>promises := promises s @ [Resolved v],
                           promiseCaches := (promiseCaches s)(fileName \<mapsto> p)\<rparr>
                in (p, scheduleRemoveMemoryCache cfg fileName s1))
           | None \<Rightarrow>
               (let p = length (promises s);
                    s1 = readFile fileName (GetRead p) (s\<lparr>promises := promises s @ [Pending]\<rparr>)
                in (p, s1\<lparr>promiseCaches := (promiseCaches s1)(fileName \<mapsto> p)\<rparr>))))"

subsection \<open>Completions\<close>

text \<open>Lines 121--130. The assignment \<^verbatim>\<open>proxy[fileName] = hasQueue[fileName]\<close> runs
  \<^verbatim>\<open>handler.set\<close>.\<close>

definition onFileAccessComplete :: "config \<Rightarrow> key \<Rightarrow> state \<Rightarrow> state" where
  "onFileAccessComplete cfg fileName s =
     (let s1 = s\<lparr>isFileAccessing := (isFileAccessing s)(fileName := None)\<rparr> in
      case hasQueue s1 fileName of
        None \<Rightarrow> s1
      | Some v \<Rightarrow>
          (let s2 = handler_set cfg fileName v s1
           in s2\<lparr>hasQueue := (hasQueue s2)(fileName := None)\<rparr>))"

text \<open>Calling the \<^verbatim>\<open>resolve\<close> of promise \<open>p\<close>; a settled promise stays as it is.\<close>

definition resolve :: "pid \<Rightarrow> content \<Rightarrow> state \<Rightarrow> state" where
  "resolve p v s =
     (if p < length (promises s) \<and> promises s ! p = Pending
      then s\<lparr>promises := (promises s)[p := Resolved v]\<rparr> else s)"

text \<open>The bodies of the three closures: lines 50--55, 78--84, 154--160. The third throws
  what \<open>removeFile\<close> throws, after it has called the observer.\<close>

fun callback_body ::
  "config \<Rightarrow> key \<Rightarrow> callback \<Rightarrow> io_result \<Rightarrow> state \<Rightarrow> (io_error \<times> state) + state" where
  "callback_body cfg fileName (SetRead content) (Err e) s =
     Inr (writeFile cfg fileName content
            (s\<lparr>memoryCaches := (memoryCaches s)(fileName \<mapsto> Null)\<rparr>))"
| "callback_body cfg fileName (SetRead content) (Ok data) s =
     Inr (writeFile cfg fileName content
            (s\<lparr>memoryCaches := (memoryCaches s)(fileName \<mapsto> data)\<rparr>))"
| "callback_body cfg fileName (GetRead p) (Err e) s = Inr (resolve p Null s)"
| "callback_body cfg fileName (GetRead p) (Ok data) s =
     Inr (scheduleRemoveFileCache cfg fileName
            (scheduleRemoveMemoryCache cfg fileName
               (s\<lparr>memoryCaches := (memoryCaches s)(fileName \<mapsto> data)\<rparr>)))"
| "callback_body cfg fileName EvictRead (Err e) s = Inr s"
| "callback_body cfg fileName EvictRead (Ok data) s =
     removeFile fileName (s\<lparr>calls := calls s @ [OnFileRemove fileName data]\<rparr>)"

text \<open>Lines 98--102: the completion of a read. When the callback throws, line 101 is not
  reached.\<close>

definition readFile_done ::
  "config \<Rightarrow> key \<Rightarrow> callback \<Rightarrow> io_result \<Rightarrow> state \<Rightarrow> (io_error \<times> state) + state" where
  "readFile_done cfg fileName cb r s =
     (case callback_body cfg fileName cb r
             (s\<lparr>isFileAccessing := (isFileAccessing s)(fileName := None)\<rparr>) of
        Inl x \<Rightarrow> Inl x
      | Inr t \<Rightarrow> Inr (onFileAccessComplete cfg fileName t))"

text \<open>Lines 112--116: the completion of a write. It throws the error it is given, out of
  a callback of \<^verbatim>\<open>fs\<close>.\<close>

definition writeFile_done ::
  "config \<Rightarrow> key \<Rightarrow> io_result \<Rightarrow> state \<Rightarrow> (io_error \<times> state) + state" where
  "writeFile_done cfg fileName r s =
     (case r of
        Err e \<Rightarrow> Inl (e, s)
      | Ok _ \<Rightarrow> Inr (scheduleRemoveFileCache cfg fileName (onFileAccessComplete cfg fileName s)))"

subsection \<open>Timers firing\<close>

text \<open>Lines 136--140.\<close>

definition memoryTimeout :: "config \<Rightarrow> key \<Rightarrow> state \<Rightarrow> state" where
  "memoryTimeout cfg fileName s =
     (let s1 = (if onMemoryRemove cfg
                then s\<lparr>calls := calls s @ [OnMemoryRemove fileName (memoryCaches s fileName)]\<rparr>
                else s)
      in s1\<lparr>memoryCaches := (memoryCaches s1)(fileName := None),
            memoryTimeLimits := (memoryTimeLimits s1)(fileName \<mapsto> None)\<rparr>)"

text \<open>Lines 148--166. When \<open>removeFile\<close> throws, lines 165--166 are not reached and the
  slot keeps its handle.\<close>

definition fileTimeout :: "config \<Rightarrow> key \<Rightarrow> state \<Rightarrow> (io_error \<times> state) + state" where
  "fileTimeout cfg fileName s =
     (case (if isFileAccessing s fileName = None then
              (if onFileRemove cfg then Inr (readFile fileName EvictRead s)
               else removeFile fileName s)
            else Inr s) of
        Inl x \<Rightarrow> Inl x
      | Inr s1 \<Rightarrow> Inr (s1\<lparr>fileTimeLimits := (fileTimeLimits s1)(fileName := None)\<rparr>))"

subsection \<open>Runs\<close>

text \<open>
  What can happen to a cache: a caller writes or reads a key, the operation at a position
  of the in-flight list completes with a result, a timer that is due fires, time passes.
  An event that cannot happen in a state (no such operation, no timer due) leaves it.
  The order in which due timers fire is left open; the runs given as examples fire them
  in the order of their due times.
\<close>

datatype event =
    CallSet key content
  | CallGet key
  | IoDone nat io_result
  | FireMemory key
  | FireFile key
  | Tick nat

fun step :: "config \<Rightarrow> event \<Rightarrow> state \<Rightarrow> (io_error \<times> state) + state" where
  "step cfg (CallSet k v) s = Inr (handler_set cfg k v s)"
| "step cfg (CallGet k) s = Inr (snd (handler_get cfg k s))"
| "step cfg (IoDone i r) s =
     (if i < length (inflight s) then
        (let s1 = s\<lparr>inflight := take i (inflight s) @ drop (Suc i) (inflight s)\<rparr> in
         case inflight s ! i of
           ReadFile k cb \<Rightarrow> readFile_done cfg k cb r s1
         | WriteFile k v \<Rightarrow> writeFile_done cfg k r s1)
      else Inr s)"
| "step cfg (FireMemory k) s =
     (case memoryTimeLimits s k of
        Some (Some due) \<Rightarrow> if due \<le> now s then Inr (memoryTimeout cfg k s) else Inr s
      | _ \<Rightarrow> Inr s)"
| "step cfg (FireFile k) s =
     (case fileTimeLimits s k of
        Some due \<Rightarrow> if due \<le> now s then fileTimeout cfg k s else Inr s
      | None \<Rightarrow> Inr s)"
| "step cfg (Tick n) s = Inr (s\<lparr>now := now s + n\<rparr>)"

text \<open>A run stops at the first uncaught error: the error leaves a callback of a timer or
  of \<^verbatim>\<open>fs\<close>, which ends the process. So a handle that a throw has left in its
  slot after its timer fired is not fired again.\<close>

fun run :: "config \<Rightarrow> event list \<Rightarrow> state \<Rightarrow> (io_error \<times> state) + state" where
  "run cfg [] s = Inr s"
| "run cfg (e # es) s =
     (case step cfg e s of Inl x \<Rightarrow> Inl x | Inr s' \<Rightarrow> run cfg es s')"

definition final :: "(io_error \<times> state) + state \<Rightarrow> state" where
  "final r = (case r of Inl (e, s) \<Rightarrow> s | Inr s \<Rightarrow> s)"

definition thrown :: "(io_error \<times> state) + state \<Rightarrow> io_error option" where
  "thrown r = (case r of Inl (e, s) \<Rightarrow> Some e | Inr s \<Rightarrow> None)"

subsection \<open>Example inputs\<close>

text \<open>Three buffers (distinct objects) and, beside the defaults, two configurations: the
  defaults with every observer set, and one with every observer set whose file time to
  live is shorter than its memory time to live.\<close>

definition v0 :: content where "v0 = Buffer 2 ''queued''"
definition v1 :: content where "v1 = Buffer 1 ''new''"
definition d0 :: content where "d0 = Buffer 0 ''old''"

definition observing :: config where
  "observing = \<lparr>onSet = True, onMemoryRemove = True, memoryTTL = 10000,
                onFileRemove = True, fileTTL = 600000\<rparr>"

definition short_file :: config where
  "short_file = \<lparr>onSet = True, onMemoryRemove = True, memoryTTL = 10,
                 onFileRemove = True, fileTTL = 5\<rparr>"

text \<open>The file of \<open>''a''\<close> is read once and then left alone until its file timer is due;
  the memory timer, due first, has fired. In the second run a \<^verbatim>\<open>set\<close> that follows the
  \<^verbatim>\<open>get\<close> has put a second read in flight, which has not completed.\<close>

definition left_alone :: "event list" where
  "left_alone = [CallGet ''a'', IoDone 0 (Ok d0), Tick 10000, FireMemory ''a'', Tick 590000]"

definition left_reading :: "event list" where
  "left_reading =
     [CallGet ''a'', CallSet ''a'' v1, IoDone 0 (Ok d0), Tick 10000, FireMemory ''a'',
      Tick 590000]"

text \<open>A \<^verbatim>\<open>get\<close> and a \<^verbatim>\<open>set\<close> of \<open>''a''\<close> whose two reads fail, and the write of the
  \<^verbatim>\<open>set\<close> succeeds: the memory value is \<open>v1\<close>.\<close>

definition written :: "event list" where
  "written =
     [CallGet ''a'', CallSet ''a'' v1, IoDone 1 (Err ENOENT), IoDone 0 (Err ENOENT),
      IoDone 0 (Ok Null)]"

subsection \<open>What holds of a key in every run\<close>

fun op_key :: "io_op \<Rightarrow> key" where
  "op_key (ReadFile k cb) = k"
| "op_key (WriteFile k v) = k"

text \<open>A key that no \<^verbatim>\<open>get\<close> has read yet has no mark, no memory value, no file timer and
  no operation in flight.\<close>

definition untouched :: "state \<Rightarrow> key \<Rightarrow> bool" where
  "untouched s k =
     (isFileAccessing s k = None \<and> memoryCaches s k = None \<and> fileTimeLimits s k = None
      \<and> k \<notin> op_key ` set (inflight s))"

definition consistent :: "state \<Rightarrow> key \<Rightarrow> bool" where
  "consistent s k = (promiseCaches s k = None \<longrightarrow> untouched s k)"

text \<open>A marked key has no file timer.\<close>

definition unarmed :: "state \<Rightarrow> key \<Rightarrow> bool" where
  "unarmed s k = (isFileAccessing s k \<noteq> None \<longrightarrow> fileTimeLimits s k = None)"

text \<open>The promise stored for a key exists, and is pending or resolved with
  \<^verbatim>\<open>null\<close>.\<close>

definition stored_unserved :: "state \<Rightarrow> key \<Rightarrow> bool" where
  "stored_unserved s k =
     (\<forall>p. promiseCaches s k = Some p \<longrightarrow>
          p < length (promises s) \<and> promises s ! p \<in> {Pending, Resolved Null})"

text \<open>An operation in flight that holds the \<^verbatim>\<open>resolve\<close> of promise \<open>p\<close>: the read issued
  by the \<^verbatim>\<open>get\<close> that created \<open>p\<close>. A promise that exists and has no such operation in
  flight is \<open>abandoned\<close>: nothing can settle it any more. Operations in flight hold only
  promises that exist.\<close>

fun resolves :: "pid \<Rightarrow> io_op \<Rightarrow> bool" where
  "resolves p (ReadFile k (GetRead q)) = (q = p)"
| "resolves p x = False"

definition abandoned :: "state \<Rightarrow> pid \<Rightarrow> bool" where
  "abandoned s p = (p < length (promises s) \<and> \<not> list_ex (resolves p) (inflight s))"

definition pids_known :: "state \<Rightarrow> bool" where
  "pids_known s = (\<forall>q. list_ex (resolves q) (inflight s) \<longrightarrow> q < length (promises s))"

lemmas cache_defs =
  handler_set_def handler_get_def readFile_def writeFile_def removeFile_def
  scheduleRemoveMemoryCache_def scheduleRemoveFileCache_def onFileAccessComplete_def
  resolve_def readFile_done_def writeFile_done_def
  memoryTimeout_def fileTimeout_def

lemmas example_defs =
  init_def defaults_def observing_def short_file_def v0_def v1_def d0_def final_def thrown_def
  left_alone_def left_reading_def written_def

section \<open>Properties\<close>

subsection \<open>What the traps and the completion handler do\<close>

text \<open>On a key that is not marked, \<^verbatim>\<open>handler.set\<close> takes the \<^verbatim>\<open>else\<close> of line
  58: it stores the content in \<^verbatim>\<open>hasQueue\<close> and does nothing else.\<close>

lemma handler_set_idle:
  "isFileAccessing s k = None \<Longrightarrow>
   handler_set cfg k v s =
     s\<lparr>calls := calls s @ (if onSet cfg then [OnSet k v] else []),
       hasQueue := (hasQueue s)(k \<mapsto> v)\<rparr>"
  by (simp add: handler_set_def)

text \<open>On a marked key it issues an operation and leaves \<^verbatim>\<open>hasQueue\<close> alone.\<close>

lemma handler_set_busy:
  "isFileAccessing s k = Some b \<Longrightarrow>
   hasQueue (handler_set cfg k v s) = hasQueue s \<and>
   inflight (handler_set cfg k v s) =
     inflight s @
       (case memoryCaches s k of
          None \<Rightarrow> [ReadFile k (SetRead v)]
        | Some m \<Rightarrow> if m = v then [] else [WriteFile k v])"
  by (cases "memoryCaches s k")
     (simp_all add: handler_set_def writeFile_def readFile_def scheduleRemoveMemoryCache_def Let_def)

text \<open>\<^verbatim>\<open>onFileAccessComplete\<close> removes the mark before it hands the queued content to
  \<^verbatim>\<open>handler.set\<close>, which therefore stores it in \<^verbatim>\<open>hasQueue\<close> again, where lines
  127--128 delete it: the observer is called, the content is dropped, nothing is issued.\<close>

lemma onFileAccessComplete_eq:
  "onFileAccessComplete cfg k s =
     s\<lparr>isFileAccessing := (isFileAccessing s)(k := None),
       calls := calls s @
         (case hasQueue s k of None \<Rightarrow> [] | Some v \<Rightarrow> if onSet cfg then [OnSet k v] else []),
       hasQueue := (hasQueue s)(k := None)\<rparr>"
proof (cases "hasQueue s k")
  case None
  then have "(hasQueue s)(k := None) = hasQueue s"
    by (simp add: fun_upd_idem)
  with None show ?thesis
    by (simp add: onFileAccessComplete_def)
next
  case (Some v)
  then show ?thesis
    by (simp add: onFileAccessComplete_def handler_set_idle)
qed

lemma onFileAccessComplete_issues_nothing:
  "inflight (onFileAccessComplete cfg k s) = inflight s \<and>
   memoryCaches (onFileAccessComplete cfg k s) = memoryCaches s \<and>
   hasQueue (onFileAccessComplete cfg k s) k = None"
  by (simp add: onFileAccessComplete_eq)

text \<open>The callback of line 77 does not call \<^verbatim>\<open>resolve\<close> when the read succeeds.\<close>

lemma get_read_success_promises:
  "promises (final (readFile_done cfg k (GetRead p) (Ok d) s)) = promises s"
  by (simp add: readFile_done_def final_def onFileAccessComplete_eq scheduleRemoveFileCache_def
        scheduleRemoveMemoryCache_def)

text \<open>A completion that throws: the read of the file timer, when it succeeds. Every other
  read completion returns.\<close>

lemma readFile_done_EvictRead_Ok:
  "readFile_done cfg k EvictRead (Ok d) s =
     Inl (ERR_INVALID_ARG_TYPE,
          s\<lparr>isFileAccessing := (isFileAccessing s)(k \<mapsto> True),
            calls := calls s @ [OnFileRemove k d]\<rparr>)"
  by (simp add: readFile_done_def removeFile_def)

lemma readFile_done_returns:
  "thrown (readFile_done cfg k (SetRead c) r s) = None"
  "thrown (readFile_done cfg k (GetRead p) r s) = None"
  "thrown (readFile_done cfg k EvictRead (Err e) s) = None"
  by (cases r; simp add: readFile_done_def thrown_def)+

lemma final_thrown:
  "final (Inl (e, s)) = s" "final (Inr s) = s"
  "thrown (Inl (e, s)) = Some e" "thrown (Inr s) = None"
  by (simp_all add: final_def thrown_def)

lemma returned: "thrown r = None \<Longrightarrow> r = Inr (final r)"
  by (cases r) (auto simp add: thrown_def final_def)

subsection \<open>The stored promise of a key\<close>

text \<open>No assignment to \<^verbatim>\<open>promiseCaches\<close> but the two of \<^verbatim>\<open>handler.get\<close> (lines 70
  and 75), both on a key that has no entry, and no \<^verbatim>\<open>delete\<close>: every other function
  leaves the map as it is.\<close>

lemma handler_set_promiseCaches:
  "promiseCaches (handler_set cfg k v s) = promiseCaches s"
  by (simp add: handler_set_def writeFile_def readFile_def scheduleRemoveMemoryCache_def Let_def)

lemma readFile_done_promiseCaches:
  "promiseCaches (final (readFile_done cfg k cb r s)) = promiseCaches s"
  by (cases cb; cases r)
     (simp_all add: readFile_done_def final_def onFileAccessComplete_eq writeFile_def
        removeFile_def resolve_def scheduleRemoveMemoryCache_def scheduleRemoveFileCache_def)

lemma writeFile_done_promiseCaches:
  "promiseCaches (final (writeFile_done cfg k r s)) = promiseCaches s"
  by (cases r)
     (simp_all add: writeFile_done_def final_def onFileAccessComplete_eq scheduleRemoveFileCache_def)

lemma fileTimeout_promiseCaches:
  "promiseCaches (final (fileTimeout cfg k s)) = promiseCaches s"
  by (simp add: fileTimeout_def final_def readFile_def removeFile_def)

lemma handler_get_stores:
  "promiseCaches (snd (handler_get cfg k s)) k = Some (fst (handler_get cfg k s))"
  by (simp add: handler_get_def readFile_def scheduleRemoveMemoryCache_def Let_def
         split: option.split)

lemma handler_get_keeps:
  "promiseCaches s k' = Some p \<Longrightarrow> promiseCaches (snd (handler_get cfg k s)) k' = Some p"
  by (auto simp add: handler_get_def readFile_def scheduleRemoveMemoryCache_def Let_def
         split: option.split)

lemma handler_get_stored:
  "promiseCaches s k = Some p \<Longrightarrow> handler_get cfg k s = (p, s)"
  by (simp add: handler_get_def)

lemma step_keeps_promise:
  assumes "promiseCaches s k = Some p"
  shows "promiseCaches (final (step cfg e s)) k = Some p"
proof (cases e)
  case (CallSet k' v)
  with assms show ?thesis by (simp add: final_def handler_set_promiseCaches)
next
  case (CallGet k')
  with assms show ?thesis by (simp add: final_def handler_get_keeps)
next
  case (IoDone i r)
  show ?thesis
  proof (cases "i < length (inflight s)")
    case False
    with IoDone assms show ?thesis by (simp add: final_def)
  next
    case True
    show ?thesis
    proof (cases "inflight s ! i")
      case (ReadFile k' cb)
      with True IoDone assms show ?thesis
        by (simp add: readFile_done_promiseCaches)
    next
      case (WriteFile k' v)
      with True IoDone assms show ?thesis
        by (simp add: writeFile_done_promiseCaches)
    qed
  qed
next
  case (FireMemory k')
  with assms show ?thesis
    by (simp add: final_def memoryTimeout_def split: option.split)
next
  case (FireFile k')
  with assms show ?thesis
    by (simp add: fileTimeout_promiseCaches split: option.split) (simp add: final_def)
next
  case (Tick n)
  with assms show ?thesis by (simp add: final_def)
qed

lemma run_keeps_promise:
  "promiseCaches s k = Some p \<Longrightarrow> promiseCaches (final (run cfg es s)) k = Some p"
proof (induction es arbitrary: s)
  case Nil
  then show ?case by (simp add: final_def)
next
  case (Cons e es)
  show ?case
  proof (cases "step cfg e s")
    case (Inl x)
    with step_keeps_promise [OF Cons.prems, of cfg e] show ?thesis
      by simp
  next
    case (Inr s')
    with step_keeps_promise [OF Cons.prems, of cfg e] have "promiseCaches s' k = Some p"
      by (simp add: final_def)
    from Cons.IH [OF this] Inr show ?thesis
      by simp
  qed
qed

subsection \<open>Runs from the empty cache\<close>

text \<open>Every state of a run from the empty cache, the state at an uncaught error included,
  is \<open>consistent\<close> at every key: the first operation of a key is the read of its first
  \<^verbatim>\<open>get\<close>, which stores the promise.\<close>

lemma consistent_init: "consistent init k"
  by (simp add: consistent_def untouched_def init_def)

lemma consistent_handler_set:
  "consistent s k \<Longrightarrow> consistent (handler_set cfg k' v s) k"
  by (auto simp add: consistent_def untouched_def handler_set_def writeFile_def readFile_def
        scheduleRemoveMemoryCache_def Let_def)

lemma consistent_handler_get:
  "consistent s k \<Longrightarrow> consistent (snd (handler_get cfg k' s)) k"
  by (auto simp add: consistent_def untouched_def handler_get_def readFile_def
        scheduleRemoveMemoryCache_def Let_def split: option.splits)

lemma consistent_memoryTimeout:
  "consistent s k \<Longrightarrow> consistent (memoryTimeout cfg k' s) k"
  by (auto simp add: consistent_def untouched_def memoryTimeout_def Let_def)

lemma consistent_fileTimeout:
  "consistent s k \<Longrightarrow> fileTimeLimits s k' = Some due \<Longrightarrow>
   consistent (final (fileTimeout cfg k' s)) k"
  by (auto simp add: consistent_def untouched_def fileTimeout_def final_def readFile_def
        removeFile_def)

lemma consistent_drop:
  "consistent s k \<Longrightarrow>
   consistent (s\<lparr>inflight := take i (inflight s) @ drop (Suc i) (inflight s)\<rparr>) k"
  by (auto simp add: consistent_def untouched_def dest: in_set_takeD in_set_dropD)

lemma consistent_readFile_done:
  "consistent s k \<Longrightarrow> promiseCaches s k' \<noteq> None \<Longrightarrow>
   consistent (final (readFile_done cfg k' cb r s)) k"
  by (cases cb; cases r)
     (auto simp add: consistent_def untouched_def readFile_done_def final_def
        onFileAccessComplete_eq writeFile_def removeFile_def resolve_def
        scheduleRemoveMemoryCache_def scheduleRemoveFileCache_def)

lemma consistent_writeFile_done:
  "consistent s k \<Longrightarrow> promiseCaches s k' \<noteq> None \<Longrightarrow>
   consistent (final (writeFile_done cfg k' r s)) k"
  by (cases r)
     (auto simp add: consistent_def untouched_def writeFile_done_def final_def
        onFileAccessComplete_eq scheduleRemoveFileCache_def)

lemma inflight_has_promise:
  assumes "\<forall>k. consistent s k" and "i < length (inflight s)"
  shows "promiseCaches s (op_key (inflight s ! i)) \<noteq> None"
proof -
  from assms(2) have "op_key (inflight s ! i) \<in> op_key ` set (inflight s)"
    by simp
  with assms(1) show ?thesis
    by (auto simp add: consistent_def untouched_def)
qed

lemma consistent_step:
  assumes "\<forall>k. consistent s k"
  shows "consistent (final (step cfg e s)) k"
proof (cases e)
  case (CallSet k' v)
  with assms show ?thesis by (simp add: final_def consistent_handler_set)
next
  case (CallGet k')
  with assms show ?thesis by (simp add: final_def consistent_handler_get)
next
  case (IoDone i r)
  show ?thesis
  proof (cases "i < length (inflight s)")
    case False
    with IoDone assms show ?thesis by (simp add: final_def)
  next
    case True
    let ?s1 = "s\<lparr>inflight := take i (inflight s) @ drop (Suc i) (inflight s)\<rparr>"
    have c: "consistent ?s1 k"
      using assms by (simp add: consistent_drop)
    from inflight_has_promise [OF assms True]
    have p: "promiseCaches ?s1 (op_key (inflight s ! i)) \<noteq> None"
      by simp
    show ?thesis
    proof (cases "inflight s ! i")
      case (ReadFile k' cb)
      with True IoDone c p show ?thesis
        by (simp add: consistent_readFile_done del: not_None_eq)
    next
      case (WriteFile k' v)
      with True IoDone c p show ?thesis
        by (simp add: consistent_writeFile_done del: not_None_eq)
    qed
  qed
next
  case (FireMemory k')
  with assms show ?thesis
    by (simp add: final_def consistent_memoryTimeout split: option.split)
next
  case (FireFile k')
  show ?thesis
  proof (cases "fileTimeLimits s k'")
    case None
    with FireFile assms show ?thesis by (simp add: final_def)
  next
    case (Some due)
    with FireFile assms consistent_fileTimeout [of s k k' due cfg] show ?thesis
      by (simp add: final_def)
  qed
next
  case (Tick n)
  with assms show ?thesis by (simp add: final_def consistent_def untouched_def)
qed

lemma consistent_run:
  "\<forall>k. consistent s k \<Longrightarrow> \<forall>k. consistent (final (run cfg es s)) k"
proof (induction es arbitrary: s)
  case Nil
  then show ?case by (simp add: final_def)
next
  case (Cons e es)
  have st: "\<forall>j. consistent (final (step cfg e s)) j"
    using consistent_step [OF Cons.prems] by blast
  show ?case
  proof (cases "step cfg e s")
    case (Inl x)
    with st show ?thesis
      by simp
  next
    case (Inr s')
    with st have "\<forall>j. consistent s' j"
      by (simp add: final_def)
    from Cons.IH [OF this] Inr show ?thesis
      by simp
  qed
qed

lemma consistent_reachable: "consistent (final (run cfg es init)) k"
  using consistent_run [of init cfg es] consistent_init by blast

text \<open>In a run from the empty cache a key with a memory value has a stored promise, so
  lines 68--73 of \<^verbatim>\<open>handler.get\<close> are not reached.\<close>

lemma reachable_memory_value_has_promise:
  "memoryCaches (final (run cfg es init)) k \<noteq> None \<Longrightarrow>
   promiseCaches (final (run cfg es init)) k \<noteq> None"
  using consistent_reachable [of cfg es k]
  by (auto simp add: consistent_def untouched_def)

text \<open>As long as nothing has been thrown, a marked key has no file timer: a file timer is
  armed only in a completion, just after the completion has deleted the mark, and a key
  is marked anew only by \<^verbatim>\<open>handler.set\<close> on a marked key or by the file timer itself,
  whose slot is then emptied. So the file timer never finds its key marked.\<close>

lemma unarmed_handler_set:
  "unarmed s k \<Longrightarrow> unarmed (handler_set cfg k' v s) k"
  by (auto simp add: unarmed_def handler_set_def writeFile_def readFile_def
        scheduleRemoveMemoryCache_def Let_def)

lemma unarmed_handler_get:
  "unarmed s k \<Longrightarrow> consistent s k' \<Longrightarrow> unarmed (snd (handler_get cfg k' s)) k"
  by (auto simp add: unarmed_def consistent_def untouched_def handler_get_def readFile_def
        scheduleRemoveMemoryCache_def Let_def split: option.splits)

lemma unarmed_readFile_done:
  "unarmed s k \<Longrightarrow> thrown (readFile_done cfg k' cb r s) = None \<Longrightarrow>
   unarmed (final (readFile_done cfg k' cb r s)) k"
  by (cases cb; cases r)
     (auto simp add: unarmed_def readFile_done_def final_def thrown_def onFileAccessComplete_eq
        writeFile_def removeFile_def resolve_def scheduleRemoveMemoryCache_def
        scheduleRemoveFileCache_def)

lemma unarmed_writeFile_done:
  "unarmed s k \<Longrightarrow> thrown (writeFile_done cfg k' r s) = None \<Longrightarrow>
   unarmed (final (writeFile_done cfg k' r s)) k"
  by (cases r)
     (auto simp add: unarmed_def writeFile_done_def final_def thrown_def
        onFileAccessComplete_eq scheduleRemoveFileCache_def)

lemma unarmed_fileTimeout:
  "unarmed s k \<Longrightarrow> thrown (fileTimeout cfg k' s) = None \<Longrightarrow>
   unarmed (final (fileTimeout cfg k' s)) k"
  by (auto simp add: unarmed_def fileTimeout_def final_def thrown_def readFile_def
        removeFile_def split: if_splits)

lemma unarmed_step:
  assumes "\<forall>k. consistent s k" and "unarmed s k" and "thrown (step cfg e s) = None"
  shows "unarmed (final (step cfg e s)) k"
proof (cases e)
  case (CallSet k' v)
  with assms(2) show ?thesis
    by (simp add: final_def unarmed_handler_set)
next
  case (CallGet k')
  from assms(1) have "consistent s k'"
    by blast
  with CallGet assms(2) show ?thesis
    by (simp add: final_def unarmed_handler_get)
next
  case (IoDone i r)
  show ?thesis
  proof (cases "i < length (inflight s)")
    case False
    with IoDone assms(2) show ?thesis by (simp add: final_def)
  next
    case True
    have a: "unarmed (s\<lparr>inflight := take i (inflight s) @ drop (Suc i) (inflight s)\<rparr>) k"
      using assms(2) by (simp add: unarmed_def)
    show ?thesis
    proof (cases "inflight s ! i")
      case (ReadFile k' cb)
      with True IoDone assms(3) unarmed_readFile_done [OF a, of cfg k' cb r] show ?thesis
        by simp
    next
      case (WriteFile k' v)
      with True IoDone assms(3) unarmed_writeFile_done [OF a, of cfg k' r] show ?thesis
        by simp
    qed
  qed
next
  case (FireMemory k')
  with assms(2) show ?thesis
    by (simp add: final_def unarmed_def memoryTimeout_def split: option.split)
next
  case (FireFile k')
  show ?thesis
  proof (cases "fileTimeLimits s k'")
    case None
    with FireFile assms(2) show ?thesis by (simp add: final_def)
  next
    case (Some due)
    show ?thesis
    proof (cases "due \<le> now s")
      case True
      with Some FireFile assms(3) unarmed_fileTimeout [OF assms(2), of cfg k'] show ?thesis
        by simp
    next
      case False
      with Some FireFile assms(2) show ?thesis by (simp add: final_def)
    qed
  qed
next
  case (Tick n)
  with assms(2) show ?thesis by (simp add: final_def unarmed_def)
qed

lemma unarmed_run:
  "\<forall>k. consistent s k \<Longrightarrow> unarmed s k \<Longrightarrow> thrown (run cfg es s) = None \<Longrightarrow>
   unarmed (final (run cfg es s)) k"
proof (induction es arbitrary: s)
  case Nil
  then show ?case by (simp add: final_def)
next
  case (Cons e es)
  show ?case
  proof (cases "step cfg e s")
    case (Inl x)
    with Cons.prems(3) show ?thesis
      by (cases x) (simp add: thrown_def)
  next
    case (Inr t)
    from consistent_step [OF Cons.prems(1), of cfg e] Inr have c: "\<forall>j. consistent t j"
      by (simp add: final_def)
    from Inr have "thrown (step cfg e s) = None"
      by (simp add: thrown_def)
    from unarmed_step [OF Cons.prems(1,2) this] Inr have u: "unarmed t k"
      by (simp add: final_def)
    from Cons.prems(3) Inr have "thrown (run cfg es t) = None"
      by simp
    from Cons.IH [OF c u this] Inr show ?thesis
      by simp
  qed
qed

lemma reachable_marked_key_has_no_file_timer:
  assumes "run cfg es init = Inr s" and "isFileAccessing s k \<noteq> None"
  shows "fileTimeLimits s k = None"
proof -
  have "\<forall>j. consistent init j"
    by (simp add: consistent_init)
  moreover have "unarmed init k"
    by (simp add: unarmed_def init_def)
  moreover from assms(1) have "thrown (run cfg es init) = None"
    by (simp add: thrown_def)
  ultimately have "unarmed (final (run cfg es init)) k"
    by (rule unarmed_run)
  with assms show ?thesis
    by (simp add: unarmed_def final_def)
qed

text \<open>The promise stored for a key is pending or resolved with \<^verbatim>\<open>null\<close>: a promise is
  resolved with a content only at line 70, which is not reached.\<close>

lemma handler_set_promises:
  "promises (handler_set cfg k v s) = promises s"
  by (simp add: handler_set_def writeFile_def readFile_def scheduleRemoveMemoryCache_def Let_def)

lemma stored_unserved_handler_set:
  "stored_unserved s k \<Longrightarrow> stored_unserved (handler_set cfg k' v s) k"
  by (simp add: stored_unserved_def handler_set_promises handler_set_promiseCaches)

lemma stored_unserved_handler_get:
  "stored_unserved s k \<Longrightarrow> consistent s k' \<Longrightarrow> stored_unserved (snd (handler_get cfg k' s)) k"
  by (auto simp add: stored_unserved_def consistent_def untouched_def handler_get_def
        readFile_def scheduleRemoveMemoryCache_def Let_def nth_append split: option.splits)

lemma stored_unserved_readFile_done:
  "stored_unserved s k \<Longrightarrow> stored_unserved (final (readFile_done cfg k' cb r s)) k"
  by (cases cb; cases r)
     (auto simp add: stored_unserved_def readFile_done_def final_def onFileAccessComplete_eq
        writeFile_def removeFile_def resolve_def scheduleRemoveMemoryCache_def
        scheduleRemoveFileCache_def nth_list_update split: option.splits)

lemma stored_unserved_writeFile_done:
  "stored_unserved s k \<Longrightarrow> stored_unserved (final (writeFile_done cfg k' r s)) k"
  by (cases r)
     (simp_all add: stored_unserved_def writeFile_done_def final_def onFileAccessComplete_eq
        scheduleRemoveFileCache_def)

lemma stored_unserved_step:
  assumes "\<forall>k. consistent s k" and "stored_unserved s k"
  shows "stored_unserved (final (step cfg e s)) k"
proof (cases e)
  case (CallSet k' v)
  with assms(2) show ?thesis by (simp add: final_def stored_unserved_handler_set)
next
  case (CallGet k')
  from assms(1) have "consistent s k'"
    by blast
  with CallGet assms(2) show ?thesis by (simp add: final_def stored_unserved_handler_get)
next
  case (IoDone i r)
  show ?thesis
  proof (cases "i < length (inflight s)")
    case False
    with IoDone assms(2) show ?thesis by (simp add: final_def)
  next
    case True
    have a: "stored_unserved (s\<lparr>inflight := take i (inflight s) @ drop (Suc i) (inflight s)\<rparr>) k"
      using assms(2) by (simp add: stored_unserved_def)
    show ?thesis
    proof (cases "inflight s ! i")
      case (ReadFile k' cb)
      with True IoDone stored_unserved_readFile_done [OF a, of cfg k' cb r] show ?thesis
        by simp
    next
      case (WriteFile k' v)
      with True IoDone stored_unserved_writeFile_done [OF a, of cfg k' r] show ?thesis
        by simp
    qed
  qed
next
  case (FireMemory k')
  with assms(2) show ?thesis
    by (simp add: final_def stored_unserved_def memoryTimeout_def split: option.split)
next
  case (FireFile k')
  with assms(2) show ?thesis
    by (simp add: final_def stored_unserved_def fileTimeout_def readFile_def removeFile_def
          split: option.split)
next
  case (Tick n)
  with assms(2) show ?thesis by (simp add: final_def stored_unserved_def)
qed

lemma stored_unserved_run:
  "\<forall>k. consistent s k \<Longrightarrow> stored_unserved s k \<Longrightarrow> stored_unserved (final (run cfg es s)) k"
proof (induction es arbitrary: s)
  case Nil
  then show ?case by (simp add: final_def)
next
  case (Cons e es)
  note st = stored_unserved_step [OF Cons.prems, of cfg e]
  have c: "\<forall>j. consistent (final (step cfg e s)) j"
    using consistent_step [OF Cons.prems(1)] by blast
  show ?case
  proof (cases "step cfg e s")
    case (Inl x)
    with st show ?thesis by simp
  next
    case (Inr t)
    with st c have "stored_unserved t k" "\<forall>j. consistent t j"
      by (simp_all add: final_def)
    from Cons.IH [OF this(2,1)] Inr show ?thesis by simp
  qed
qed

lemma stored_unserved_reachable: "stored_unserved (final (run cfg es init)) k"
  using stored_unserved_run [of init k cfg es] consistent_init
  by (simp add: stored_unserved_def init_def)


subsection \<open>Promises that nothing can settle\<close>

text \<open>An abandoned promise stays abandoned and keeps its state, whatever happens: the only
  call of a \<^verbatim>\<open>resolve\<close> is in the callback of the read that holds it.\<close>

lemma abandoned_handler_set:
  "abandoned s p \<Longrightarrow>
   abandoned (handler_set cfg k v s) p \<and> promises (handler_set cfg k v s) = promises s"
  by (simp add: abandoned_def handler_set_def writeFile_def readFile_def
        scheduleRemoveMemoryCache_def Let_def)

lemma abandoned_handler_get:
  "abandoned s p \<Longrightarrow>
   abandoned (snd (handler_get cfg k s)) p \<and>
   promises (snd (handler_get cfg k s)) ! p = promises s ! p"
  by (auto simp add: abandoned_def handler_get_def readFile_def scheduleRemoveMemoryCache_def
        Let_def nth_append split: option.splits)

lemma abandoned_drop:
  "abandoned s p \<Longrightarrow>
   abandoned (s\<lparr>inflight := take i (inflight s) @ drop (Suc i) (inflight s)\<rparr>) p"
  by (auto simp add: abandoned_def list_ex_iff dest: in_set_takeD in_set_dropD)

lemma abandoned_readFile_done:
  "abandoned s p \<Longrightarrow> \<not> resolves p (ReadFile k cb) \<Longrightarrow>
   abandoned (final (readFile_done cfg k cb r s)) p \<and>
   promises (final (readFile_done cfg k cb r s)) ! p = promises s ! p"
  by (cases cb; cases r)
     (auto simp add: abandoned_def readFile_done_def final_def onFileAccessComplete_eq
        writeFile_def removeFile_def resolve_def scheduleRemoveMemoryCache_def
        scheduleRemoveFileCache_def)

lemma abandoned_writeFile_done:
  "abandoned s p \<Longrightarrow>
   abandoned (final (writeFile_done cfg k r s)) p \<and>
   promises (final (writeFile_done cfg k r s)) = promises s"
  by (cases r)
     (simp_all add: abandoned_def writeFile_done_def final_def onFileAccessComplete_eq
        scheduleRemoveFileCache_def)

lemma abandoned_step:
  assumes "abandoned s p"
  shows "abandoned (final (step cfg e s)) p \<and>
         promises (final (step cfg e s)) ! p = promises s ! p"
proof (cases e)
  case (CallSet k v)
  with abandoned_handler_set [OF assms, of cfg k v] show ?thesis by (simp add: final_def)
next
  case (CallGet k)
  with abandoned_handler_get [OF assms, of cfg k] show ?thesis by (simp add: final_def)
next
  case (IoDone i r)
  show ?thesis
  proof (cases "i < length (inflight s)")
    case False
    with IoDone assms show ?thesis by (simp add: final_def)
  next
    case True
    let ?s1 = "s\<lparr>inflight := take i (inflight s) @ drop (Suc i) (inflight s)\<rparr>"
    have a: "abandoned ?s1 p"
      using assms by (rule abandoned_drop)
    from True have "inflight s ! i \<in> set (inflight s)"
      by simp
    with assms have n: "\<not> resolves p (inflight s ! i)"
      by (auto simp add: abandoned_def list_ex_iff)
    show ?thesis
    proof (cases "inflight s ! i")
      case (ReadFile k cb)
      with n abandoned_readFile_done [OF a, of k cb cfg r] True IoDone show ?thesis
        by simp
    next
      case (WriteFile k v)
      with abandoned_writeFile_done [OF a, of cfg k r] True IoDone show ?thesis
        by simp
    qed
  qed
next
  case (FireMemory k)
  with assms show ?thesis
    by (simp add: final_def abandoned_def memoryTimeout_def split: option.split)
next
  case (FireFile k)
  with assms show ?thesis
    by (simp add: final_def abandoned_def fileTimeout_def readFile_def removeFile_def
          split: option.split)
next
  case (Tick n)
  with assms show ?thesis by (simp add: final_def abandoned_def)
qed

lemma abandoned_run:
  "abandoned s p \<Longrightarrow>
   abandoned (final (run cfg es s)) p \<and> promises (final (run cfg es s)) ! p = promises s ! p"
proof (induction es arbitrary: s)
  case Nil
  then show ?case by (simp add: final_def)
next
  case (Cons e es)
  note st = abandoned_step [OF Cons.prems, of cfg e]
  show ?case
  proof (cases "step cfg e s")
    case (Inl x)
    with st show ?thesis
      by simp
  next
    case (Inr s')
    with st have a: "abandoned s' p" and b: "promises s' ! p = promises s ! p"
      by (simp_all add: final_def)
    from Cons.IH [OF a] b Inr show ?thesis
      by simp
  qed
qed

lemma pids_known_init: "pids_known init"
  by (simp add: pids_known_def init_def)

lemma pids_known_handler_set: "pids_known s \<Longrightarrow> pids_known (handler_set cfg k v s)"
  by (simp add: pids_known_def handler_set_def writeFile_def readFile_def
        scheduleRemoveMemoryCache_def Let_def)

lemma pids_known_handler_get: "pids_known s \<Longrightarrow> pids_known (snd (handler_get cfg k s))"
  by (auto simp add: pids_known_def handler_get_def readFile_def scheduleRemoveMemoryCache_def
        Let_def less_Suc_eq split: option.splits)

lemma pids_known_drop:
  "pids_known s \<Longrightarrow>
   pids_known (s\<lparr>inflight := take i (inflight s) @ drop (Suc i) (inflight s)\<rparr>)"
  by (auto simp add: pids_known_def list_ex_iff dest: in_set_takeD in_set_dropD)

lemma pids_known_readFile_done:
  "pids_known s \<Longrightarrow> pids_known (final (readFile_done cfg k cb r s))"
  by (cases cb; cases r)
     (auto simp add: pids_known_def readFile_done_def final_def onFileAccessComplete_eq
        writeFile_def removeFile_def resolve_def scheduleRemoveMemoryCache_def
        scheduleRemoveFileCache_def)

lemma pids_known_writeFile_done:
  "pids_known s \<Longrightarrow> pids_known (final (writeFile_done cfg k r s))"
  by (cases r)
     (simp_all add: pids_known_def writeFile_done_def final_def onFileAccessComplete_eq
        scheduleRemoveFileCache_def)

lemma pids_known_step:
  assumes "pids_known s"
  shows "pids_known (final (step cfg e s))"
proof (cases e)
  case (CallSet k v)
  with assms show ?thesis by (simp add: final_def pids_known_handler_set)
next
  case (CallGet k)
  with assms show ?thesis by (simp add: final_def pids_known_handler_get)
next
  case (IoDone i r)
  show ?thesis
  proof (cases "i < length (inflight s)")
    case False
    with IoDone assms show ?thesis by (simp add: final_def)
  next
    case True
    have a: "pids_known (s\<lparr>inflight := take i (inflight s) @ drop (Suc i) (inflight s)\<rparr>)"
      using assms by (rule pids_known_drop)
    show ?thesis
    proof (cases "inflight s ! i")
      case (ReadFile k cb)
      with pids_known_readFile_done [OF a, of cfg k cb r] True IoDone show ?thesis
        by simp
    next
      case (WriteFile k v)
      with pids_known_writeFile_done [OF a, of cfg k r] True IoDone show ?thesis
        by simp
    qed
  qed
next
  case (FireMemory k)
  with assms show ?thesis
    by (simp add: final_def pids_known_def memoryTimeout_def split: option.split)
next
  case (FireFile k)
  with assms show ?thesis
    by (simp add: final_def pids_known_def fileTimeout_def readFile_def removeFile_def
          split: option.split)
next
  case (Tick n)
  with assms show ?thesis by (simp add: final_def pids_known_def)
qed

lemma pids_known_run: "pids_known s \<Longrightarrow> pids_known (final (run cfg es s))"
proof (induction es arbitrary: s)
  case Nil
  then show ?case by (simp add: final_def)
next
  case (Cons e es)
  note st = pids_known_step [OF Cons.prems, of cfg e]
  show ?case
  proof (cases "step cfg e s")
    case (Inl x)
    with st show ?thesis by simp
  next
    case (Inr s')
    with st have "pids_known s'" by (simp add: final_def)
    from Cons.IH [OF this] Inr show ?thesis by simp
  qed
qed

lemma pids_known_fresh:
  "pids_known s \<Longrightarrow> \<not> list_ex (resolves (length (promises s))) (inflight s)"
  by (auto simp add: pids_known_def)

subsection \<open>The first read of a key\<close>

text \<open>\<^verbatim>\<open>handler.get\<close> on a key with no stored promise and no memory value (lines 75--86),
  and the completion of the read it issues.\<close>

lemma first_get:
  assumes "promiseCaches s k = None" and "memoryCaches s k = None"
  shows "handler_get cfg k s =
           (length (promises s),
            s\<lparr>promises := promises s @ [Pending],
              isFileAccessing := (isFileAccessing s)(k \<mapsto> True),
              inflight := inflight s @ [ReadFile k (GetRead (length (promises s)))],
              promiseCaches := (promiseCaches s)(k \<mapsto> length (promises s))\<rparr>)"
  using assms by (simp add: handler_get_def readFile_def Let_def)

lemma first_get_read_done:
  assumes "promiseCaches s k = None" and "memoryCaches s k = None"
  shows "step cfg (IoDone (length (inflight s)) r) (snd (handler_get cfg k s)) =
           Inr (final (readFile_done cfg k (GetRead (length (promises s))) r
                  (snd (handler_get cfg k s)\<lparr>inflight := inflight s\<rparr>)))"
  using assms returned [OF readFile_done_returns(2)] by (simp add: first_get)

lemma first_get_never_resolved:
  assumes "promiseCaches s k = None" and "memoryCaches s k = None"
    and "\<not> list_ex (resolves (length (promises s))) (inflight s)"
  shows "promises (final (run cfg (IoDone (length (inflight s)) (Ok d) # es)
           (snd (handler_get cfg k s)))) ! length (promises s) = Pending"
proof -
  let ?g = "snd (handler_get cfg k s)"
  let ?t = "final (readFile_done cfg k (GetRead (length (promises s))) (Ok d)
              (?g\<lparr>inflight := inflight s\<rparr>))"
  have a: "abandoned ?t (length (promises s))"
    and p: "promises ?t ! length (promises s) = Pending"
    using assms
    by (simp_all add: first_get abandoned_def readFile_done_def final_def
          onFileAccessComplete_eq scheduleRemoveFileCache_def scheduleRemoveMemoryCache_def)
  have "run cfg (IoDone (length (inflight s)) (Ok d) # es) ?g = run cfg es ?t"
    by (subst run.simps, subst first_get_read_done [OF assms(1,2)]) simp
  with abandoned_run [OF a, of cfg es] p show ?thesis
    by simp
qed

lemma first_get_read_outcomes:
  assumes "promiseCaches s k = None" and "memoryCaches s k = None"
  shows "memoryCaches (final (step cfg (IoDone (length (inflight s)) (Ok d))
             (snd (handler_get cfg k s)))) k = Some d"
    and "memoryTimeLimits (final (step cfg (IoDone (length (inflight s)) (Ok d))
             (snd (handler_get cfg k s)))) k = Some (Some (now s + memoryTTL cfg))"
    and "fileTimeLimits (final (step cfg (IoDone (length (inflight s)) (Ok d))
             (snd (handler_get cfg k s)))) k = Some (now s + fileTTL cfg)"
    and "promises (final (step cfg (IoDone (length (inflight s)) (Err e))
             (snd (handler_get cfg k s)))) ! length (promises s) = Resolved Null"
    and "memoryCaches (final (step cfg (IoDone (length (inflight s)) (Err e))
             (snd (handler_get cfg k s)))) k = None"
  using assms
  by (simp_all add: first_get final_def readFile_done_def onFileAccessComplete_eq
        scheduleRemoveFileCache_def scheduleRemoveMemoryCache_def resolve_def)

text \<open>In a run from the empty cache, a key with no stored promise has no memory value and
  no mark, and no operation in flight holds a promise not yet created.\<close>

lemma reachable_unread_key:
  assumes "promiseCaches (final (run cfg es init)) k = None"
  shows "memoryCaches (final (run cfg es init)) k = None"
    and "isFileAccessing (final (run cfg es init)) k = None"
    and "\<not> list_ex (resolves (length (promises (final (run cfg es init)))))
            (inflight (final (run cfg es init)))"
proof -
  from assms consistent_reachable [of cfg es k]
  show "memoryCaches (final (run cfg es init)) k = None"
    and "isFileAccessing (final (run cfg es init)) k = None"
    by (simp_all add: consistent_def untouched_def)
  from pids_known_run [OF pids_known_init, of cfg es]
  show "\<not> list_ex (resolves (length (promises (final (run cfg es init)))))
            (inflight (final (run cfg es init)))"
    by (rule pids_known_fresh)
qed


subsection \<open>Two branches that no run takes\<close>

text \<open>Lines 68--73 of \<^verbatim>\<open>handler.get\<close> serve a memory value when no promise is stored,
  and line 149 skips the file timer of a marked key. By
  \<open>reachable_memory_value_has_promise\<close> and \<open>reachable_marked_key_has_no_file_timer\<close>
  no run from the empty cache reaches either.\<close>

lemma handler_get_memory_branch:
  assumes "promiseCaches s k = None" and "memoryCaches s k = Some v"
  shows "handler_get cfg k s =
           (length (promises s),
            s\<lparr>promises := promises s @ [Resolved v],
              promiseCaches := (promiseCaches s)(k \<mapsto> length (promises s)),
              memoryTimeLimits := (memoryTimeLimits s)(k \<mapsto> Some (now s + memoryTTL cfg))\<rparr>)"
  using assms by (simp add: handler_get_def scheduleRemoveMemoryCache_def Let_def)

lemma fileTimeout_marked:
  "isFileAccessing s k = Some b \<Longrightarrow>
   fileTimeout cfg k s = Inr (s\<lparr>fileTimeLimits := (fileTimeLimits s)(k := None)\<rparr>)"
  by (simp add: fileTimeout_def)

subsection \<open>Writing a key\<close>

text \<open>
  Claim C1 says that \<^verbatim>\<open>set\<close> on a key with an operation in flight only records the
  content as the pending write, and on an idle key marks the key and goes to the file
  system. The test of line 40 is the other way round, in every state and for every key
  and content. On a key that is not marked, \<^verbatim>\<open>handler.set\<close> calls the observer,
  stores the content in \<^verbatim>\<open>hasQueue\<close> and does nothing else: no mark, no operation. On a
  marked key it leaves \<^verbatim>\<open>hasQueue\<close> as it is and goes to the file system: it issues a
  read when no memory value is known, a write when the memory value is another object,
  and nothing when the memory value is the content itself.
\<close>

theorem C1_set_branches_inverted:
  "(isFileAccessing s k = None \<longrightarrow>
      handler_set cfg k v s =
        s\<lparr>calls := calls s @ (if onSet cfg then [OnSet k v] else []),
          hasQueue := (hasQueue s)(k \<mapsto> v)\<rparr>)
   \<and> (isFileAccessing s k \<noteq> None \<longrightarrow>
        hasQueue (handler_set cfg k v s) = hasQueue s
        \<and> isFileAccessing (handler_set cfg k v s) k = Some True
        \<and> inflight (handler_set cfg k v s) =
            inflight s @
              (case memoryCaches s k of
                 None \<Rightarrow> [ReadFile k (SetRead v)]
               | Some m \<Rightarrow> if m = v then [] else [WriteFile k v]))"
proof (intro conjI impI)
  assume "isFileAccessing s k = None"
  then show "handler_set cfg k v s =
        s\<lparr>calls := calls s @ (if onSet cfg then [OnSet k v] else []),
          hasQueue := (hasQueue s)(k \<mapsto> v)\<rparr>"
    by (rule handler_set_idle)
next
  assume "isFileAccessing s k \<noteq> None"
  then obtain b where b: "isFileAccessing s k = Some b"
    by blast
  from handler_set_busy [OF b, of cfg v]
  show "hasQueue (handler_set cfg k v s) = hasQueue s"
    and "inflight (handler_set cfg k v s) =
            inflight s @
              (case memoryCaches s k of
                 None \<Rightarrow> [ReadFile k (SetRead v)]
               | Some m \<Rightarrow> if m = v then [] else [WriteFile k v])"
    by blast+
  from b show "isFileAccessing (handler_set cfg k v s) k = Some True"
    by (cases "memoryCaches s k")
       (simp_all add: handler_set_def writeFile_def readFile_def scheduleRemoveMemoryCache_def
          Let_def)
qed

text \<open>The theorem on the empty cache, where \<^verbatim>\<open>set\<close> of \<open>''a''\<close> only queues, and
  after a \<^verbatim>\<open>get\<close> of \<open>''a''\<close>, whose read is in flight, where \<^verbatim>\<open>set\<close> queues
  nothing and issues a second read of the same file.\<close>

theorem C1_set_branches_inverted_witness:
  "isFileAccessing init ''a'' = None
   \<and> handler_set defaults ''a'' v1 init = init\<lparr>hasQueue := [''a'' \<mapsto> v1]\<rparr>
   \<and> inflight (handler_set defaults ''a'' v1 init) = []
   \<and> isFileAccessing (snd (handler_get defaults ''a'' init)) ''a'' = Some True
   \<and> inflight (snd (handler_get defaults ''a'' init)) = [ReadFile ''a'' (GetRead 0)]
   \<and> hasQueue (handler_set defaults ''a'' v1 (snd (handler_get defaults ''a'' init))) ''a'' = None
   \<and> inflight (handler_set defaults ''a'' v1 (snd (handler_get defaults ''a'' init)))
       = [ReadFile ''a'' (GetRead 0), ReadFile ''a'' (SetRead v1)]"
proof -
  let ?g = "snd (handler_get defaults ''a'' init)"
  have i: "isFileAccessing init ''a'' = None" "calls init = []" "hasQueue init = Map.empty"
    "onSet defaults = False"
    by (simp_all add: init_def defaults_def)
  have g: "isFileAccessing ?g ''a'' = Some True" "inflight ?g = [ReadFile ''a'' (GetRead 0)]"
    "hasQueue ?g ''a'' = None" "memoryCaches ?g ''a'' = None"
    by (simp_all add: cache_defs example_defs del: not_None_eq)
  from C1_set_branches_inverted [of init "''a''" defaults v1] i(1)
  have "handler_set defaults ''a'' v1 init =
      init\<lparr>calls := calls init @ (if onSet defaults then [OnSet ''a'' v1] else []),
           hasQueue := (hasQueue init)(''a'' \<mapsto> v1)\<rparr>"
    by blast
  then have 1: "handler_set defaults ''a'' v1 init = init\<lparr>hasQueue := [''a'' \<mapsto> v1]\<rparr>"
    by (simp add: i init_def)
  then have 2: "inflight (handler_set defaults ''a'' v1 init) = []"
    by (simp add: init_def)
  from g(1) have "isFileAccessing ?g ''a'' \<noteq> None"
    by simp
  with C1_set_branches_inverted [of ?g "''a''" defaults v1]
  have "hasQueue (handler_set defaults ''a'' v1 ?g) = hasQueue ?g"
    and "inflight (handler_set defaults ''a'' v1 ?g) =
            inflight ?g @
              (case memoryCaches ?g ''a'' of
                 None \<Rightarrow> [ReadFile ''a'' (SetRead v1)]
               | Some m \<Rightarrow> if m = v1 then [] else [WriteFile ''a'' v1])"
    by blast+
  then have 3: "hasQueue (handler_set defaults ''a'' v1 ?g) ''a'' = None"
    and 4: "inflight (handler_set defaults ''a'' v1 ?g)
       = [ReadFile ''a'' (GetRead 0), ReadFile ''a'' (SetRead v1)]"
    by (simp_all only: g option.case append.simps)
  from i(1) 1 2 g(1,2) 3 4 show ?thesis
    by (intro conjI)
qed

subsection \<open>Reading a key from its file\<close>

text \<open>
  Claim C2 says that the promise of a \<^verbatim>\<open>get\<close> that goes to the file system is resolved
  with the bytes read when the read succeeds, and with an absent value when it fails. In
  any state of a run from the empty cache, and for any key with no stored promise, the key
  has no memory value either and \<^verbatim>\<open>get\<close> returns a new promise and issues a read. When
  the read succeeds with \<open>d\<close>, the memory value is \<open>d\<close> and both timers are armed
  anew, as the claim says, but the promise is pending and stays pending whatever events
  follow: the callback of line 77 calls \<^verbatim>\<open>resolve\<close> only in its error branch. When the
  read fails, the promise is resolved with \<^verbatim>\<open>null\<close> and no memory value is stored.
\<close>

theorem C2_get_success_never_resolves:
  assumes "s = final (run cfg es0 init)" and "promiseCaches s k = None"
  shows "memoryCaches s k = None
       \<and> fst (handler_get cfg k s) = length (promises s)
       \<and> inflight (snd (handler_get cfg k s)) =
           inflight s @ [ReadFile k (GetRead (length (promises s)))]
       \<and> memoryCaches (final (step cfg (IoDone (length (inflight s)) (Ok d))
             (snd (handler_get cfg k s)))) k = Some d
       \<and> memoryTimeLimits (final (step cfg (IoDone (length (inflight s)) (Ok d))
             (snd (handler_get cfg k s)))) k = Some (Some (now s + memoryTTL cfg))
       \<and> fileTimeLimits (final (step cfg (IoDone (length (inflight s)) (Ok d))
             (snd (handler_get cfg k s)))) k = Some (now s + fileTTL cfg)
       \<and> promises (final (run cfg (IoDone (length (inflight s)) (Ok d) # es)
             (snd (handler_get cfg k s)))) ! length (promises s) = Pending
       \<and> promises (final (step cfg (IoDone (length (inflight s)) (Err e))
             (snd (handler_get cfg k s)))) ! length (promises s) = Resolved Null
       \<and> memoryCaches (final (step cfg (IoDone (length (inflight s)) (Err e))
             (snd (handler_get cfg k s)))) k = None"
proof -
  note u = reachable_unread_key [of cfg es0 k, folded assms(1), OF assms(2)]
  from first_get [OF assms(2) u(1), of cfg]
  have g: "fst (handler_get cfg k s) = length (promises s)"
    "inflight (snd (handler_get cfg k s)) =
       inflight s @ [ReadFile k (GetRead (length (promises s)))]"
    by simp_all
  note o = first_get_read_outcomes [OF assms(2) u(1), of cfg]
  note n = first_get_never_resolved [OF assms(2) u(1) u(3), of cfg d es]
  from u(1) g o(1) [of d] o(2) [of d] o(3) [of d] n o(4) [of e] o(5) [of e] show ?thesis
    by (intro conjI)
qed

text \<open>The theorem on the empty cache and the key \<open>''a''\<close>: the read succeeds, the memory
  timer fires and the key is read again, and promise 0 is still pending.\<close>

theorem C2_get_success_never_resolves_witness:
  "init = final (run defaults [] init)
   \<and> promiseCaches init ''a'' = None
   \<and> fst (handler_get defaults ''a'' init) = 0
   \<and> promises (final (run defaults
        [IoDone 0 (Ok d0), Tick 10000, FireMemory ''a'', CallGet ''a'']
        (snd (handler_get defaults ''a'' init)))) ! 0 = Pending
   \<and> memoryCaches (final (run defaults [CallGet ''a'', IoDone 0 (Ok d0)] init)) ''a'' = Some d0
   \<and> promises (final (run defaults [CallGet ''a'', IoDone 0 (Ok d0)] init)) = [Pending]
   \<and> inflight (final (run defaults [CallGet ''a'', IoDone 0 (Ok d0)] init)) = []
   \<and> promises (final (run defaults [CallGet ''a'', IoDone 0 (Err ENOENT)] init)) = [Resolved Null]"
proof -
  have a: "init = final (run defaults [] init)"
    by (simp add: final_def)
  have b: "promiseCaches init ''a'' = None"
    and l: "length (promises init) = 0" "length (inflight init) = 0"
    by (simp_all add: init_def)
  note t = C2_get_success_never_resolves [OF a b,
      of d0 "[Tick 10000, FireMemory ''a'', CallGet ''a'']" ENOENT, unfolded l]
  from t have 1: "fst (handler_get defaults ''a'' init) = 0"
    and 2: "promises (final (run defaults
        [IoDone 0 (Ok d0), Tick 10000, FireMemory ''a'', CallGet ''a'']
        (snd (handler_get defaults ''a'' init)))) ! 0 = Pending"
    by blast+
  have 3: "memoryCaches (final (run defaults [CallGet ''a'', IoDone 0 (Ok d0)] init)) ''a'' = Some d0"
    "promises (final (run defaults [CallGet ''a'', IoDone 0 (Ok d0)] init)) = [Pending]"
    "inflight (final (run defaults [CallGet ''a'', IoDone 0 (Ok d0)] init)) = []"
    "promises (final (run defaults [CallGet ''a'', IoDone 0 (Err ENOENT)] init)) = [Resolved Null]"
    by (simp_all add: cache_defs example_defs del: not_None_eq)
  from a b 1 2 3 show ?thesis
    by (intro conjI)
qed

subsection \<open>Draining the queue\<close>

text \<open>
  Claim C3 says that a completion that finds a pending write clears the mark, takes the
  pending write and submits it as a new write, so that the latest queued content reaches
  the file system. In every state with a content queued for a key,
  \<^verbatim>\<open>onFileAccessComplete\<close> for the key clears the mark and the queue entry, as the
  claim says, but issues no operation and stores no memory value: the content is lost.
  So the completion of a write of the key issues nothing, and the completion of a read
  has in flight what its callback has issued and nothing for the queue; when it returns,
  the queue entry is gone. The one completion that does not return, that of the read of
  the file timer when it succeeds, does not reach line 101 and leaves the content queued.
\<close>

theorem C3_queued_write_is_dropped:
  assumes "hasQueue s k = Some v"
  shows "isFileAccessing (onFileAccessComplete cfg k s) k = None
       \<and> hasQueue (onFileAccessComplete cfg k s) k = None
       \<and> inflight (onFileAccessComplete cfg k s) = inflight s
       \<and> memoryCaches (onFileAccessComplete cfg k s) = memoryCaches s
       \<and> map_sum id inflight (writeFile_done cfg k (Ok x) s) = Inr (inflight s)
       \<and> map_sum id inflight (readFile_done cfg k cb r s) =
           map_sum id inflight (callback_body cfg k cb r
             (s\<lparr>isFileAccessing := (isFileAccessing s)(k := None)\<rparr>))
       \<and> (thrown (readFile_done cfg k cb r s) = None \<longrightarrow>
            hasQueue (final (readFile_done cfg k cb r s)) k = None)
       \<and> thrown (readFile_done cfg k EvictRead (Ok d) s) = Some ERR_INVALID_ARG_TYPE
       \<and> hasQueue (final (readFile_done cfg k EvictRead (Ok d) s)) k = Some v"
proof (intro conjI)
  show "map_sum id inflight (readFile_done cfg k cb r s) =
           map_sum id inflight (callback_body cfg k cb r
             (s\<lparr>isFileAccessing := (isFileAccessing s)(k := None)\<rparr>))"
    by (cases cb; cases r)
       (simp_all add: readFile_done_def onFileAccessComplete_eq removeFile_def)
  show "thrown (readFile_done cfg k cb r s) = None \<longrightarrow>
            hasQueue (final (readFile_done cfg k cb r s)) k = None"
    by (cases cb; cases r)
       (simp_all add: readFile_done_def onFileAccessComplete_eq removeFile_def thrown_def
          final_def)
  show "thrown (readFile_done cfg k EvictRead (Ok d) s) = Some ERR_INVALID_ARG_TYPE"
    by (simp add: readFile_done_EvictRead_Ok thrown_def)
  show "hasQueue (final (readFile_done cfg k EvictRead (Ok d) s)) k = Some v"
    using assms by (simp add: readFile_done_EvictRead_Ok final_def)
qed (simp_all add: onFileAccessComplete_eq writeFile_done_def scheduleRemoveFileCache_def)

text \<open>The theorem in a run: \<^verbatim>\<open>set\<close> of \<open>''a''\<close> on the empty cache queues \<open>v1\<close>,
  \<^verbatim>\<open>get\<close> of \<open>''a''\<close> issues a read, and when the read has completed nothing is
  queued, nothing is in flight and no memory value is stored.\<close>

theorem C3_queued_write_is_dropped_witness:
  "hasQueue (final (run defaults [CallSet ''a'' v1, CallGet ''a''] init)) ''a'' = Some v1
   \<and> inflight (final (run defaults [CallSet ''a'' v1, CallGet ''a''] init))
       = [ReadFile ''a'' (GetRead 0)]
   \<and> inflight (onFileAccessComplete defaults ''a''
        (final (run defaults [CallSet ''a'' v1, CallGet ''a''] init)))
       = [ReadFile ''a'' (GetRead 0)]
   \<and> hasQueue (onFileAccessComplete defaults ''a''
        (final (run defaults [CallSet ''a'' v1, CallGet ''a''] init))) ''a'' = None
   \<and> hasQueue (final (run defaults
        [CallSet ''a'' v1, CallGet ''a'', IoDone 0 (Err ENOENT)] init)) ''a'' = None
   \<and> inflight (final (run defaults
        [CallSet ''a'' v1, CallGet ''a'', IoDone 0 (Err ENOENT)] init)) = []
   \<and> memoryCaches (final (run defaults
        [CallSet ''a'' v1, CallGet ''a'', IoDone 0 (Err ENOENT)] init)) ''a'' = None"
proof -
  let ?s = "final (run defaults [CallSet ''a'' v1, CallGet ''a''] init)"
  have h: "hasQueue ?s ''a'' = Some v1"
    and i: "inflight ?s = [ReadFile ''a'' (GetRead 0)]"
    by (simp_all add: cache_defs example_defs del: not_None_eq)
  from C3_queued_write_is_dropped [OF h, of defaults]
  have "inflight (onFileAccessComplete defaults ''a'' ?s) = inflight ?s"
    and 2: "hasQueue (onFileAccessComplete defaults ''a'' ?s) ''a'' = None"
    by blast+
  then have 1: "inflight (onFileAccessComplete defaults ''a'' ?s) = [ReadFile ''a'' (GetRead 0)]"
    by (simp only: i)
  have 3: "hasQueue (final (run defaults
        [CallSet ''a'' v1, CallGet ''a'', IoDone 0 (Err ENOENT)] init)) ''a'' = None"
    "inflight (final (run defaults
        [CallSet ''a'' v1, CallGet ''a'', IoDone 0 (Err ENOENT)] init)) = []"
    "memoryCaches (final (run defaults
        [CallSet ''a'' v1, CallGet ''a'', IoDone 0 (Err ENOENT)] init)) ''a'' = None"
    by (simp_all add: cache_defs example_defs del: not_None_eq)
  from h i 1 2 3 show ?thesis
    by (intro conjI)
qed

subsection \<open>The stored promise is kept\<close>

text \<open>
  Claim C4 says that the promise stored for a key is removed once it resolves, so that a
  later \<^verbatim>\<open>get\<close> looks at the memory value or reads the file again. The promise that
  \<^verbatim>\<open>handler.get\<close> stores for a key is never removed: when a \<^verbatim>\<open>get\<close> of a key has
  returned a promise, then after any events whatever (completions, timers, writes, an
  uncaught error) a later \<^verbatim>\<open>get\<close> of the key returns that same promise and changes
  nothing: it looks at no memory value, arms no timer and issues no read.
\<close>

theorem C4_stored_promise_is_kept:
  assumes "handler_get cfg k s0 = (p, s)"
  shows "handler_get cfg k (final (run cfg es s)) = (p, final (run cfg es s))"
proof -
  from assms handler_get_stores [of cfg k s0] have "promiseCaches s k = Some p"
    by simp
  then have "promiseCaches (final (run cfg es s)) k = Some p"
    by (rule run_keeps_promise)
  then show ?thesis
    by (rule handler_get_stored)
qed

text \<open>The theorem at the first \<^verbatim>\<open>get\<close> of \<open>''a''\<close> on the empty cache, which returns
  promise 0. When its read fails, the promise is resolved with \<^verbatim>\<open>null\<close>, and a second
  \<^verbatim>\<open>get\<close> returns promise 0 and issues no read. When its read succeeds and the memory
  value has been evicted, a second \<^verbatim>\<open>get\<close> returns promise 0 and issues no read
  either.\<close>

theorem C4_stored_promise_is_kept_witness:
  "handler_get defaults ''a'' init = (0, snd (handler_get defaults ''a'' init))
   \<and> handler_get defaults ''a''
        (final (run defaults [IoDone 0 (Err ENOENT)] (snd (handler_get defaults ''a'' init))))
      = (0, final (run defaults [IoDone 0 (Err ENOENT)] (snd (handler_get defaults ''a'' init))))
   \<and> promises (final (run defaults [CallGet ''a'', IoDone 0 (Err ENOENT)] init)) = [Resolved Null]
   \<and> inflight (final (run defaults [CallGet ''a'', IoDone 0 (Err ENOENT), CallGet ''a''] init)) = []
   \<and> handler_get defaults ''a''
        (final (run defaults [IoDone 0 (Ok d0), Tick 10000, FireMemory ''a'']
           (snd (handler_get defaults ''a'' init))))
      = (0, final (run defaults [IoDone 0 (Ok d0), Tick 10000, FireMemory ''a'']
           (snd (handler_get defaults ''a'' init))))
   \<and> memoryCaches (final (run defaults
        [CallGet ''a'', IoDone 0 (Ok d0), Tick 10000, FireMemory ''a''] init)) ''a'' = None
   \<and> inflight (final (run defaults
        [CallGet ''a'', IoDone 0 (Ok d0), Tick 10000, FireMemory ''a'', CallGet ''a''] init)) = []"
proof -
  have g: "handler_get defaults ''a'' init = (0, snd (handler_get defaults ''a'' init))"
    by (simp add: cache_defs example_defs del: not_None_eq)
  have e: "promises (final (run defaults [CallGet ''a'', IoDone 0 (Err ENOENT)] init))
      = [Resolved Null]"
    "inflight (final (run defaults [CallGet ''a'', IoDone 0 (Err ENOENT), CallGet ''a''] init)) = []"
    "memoryCaches (final (run defaults
        [CallGet ''a'', IoDone 0 (Ok d0), Tick 10000, FireMemory ''a''] init)) ''a'' = None"
    "inflight (final (run defaults
        [CallGet ''a'', IoDone 0 (Ok d0), Tick 10000, FireMemory ''a'', CallGet ''a''] init)) = []"
    by (simp_all add: cache_defs example_defs del: not_None_eq)
  from g C4_stored_promise_is_kept [OF g, of "[IoDone 0 (Err ENOENT)]"] e(1,2)
    C4_stored_promise_is_kept [OF g, of "[IoDone 0 (Ok d0), Tick 10000, FireMemory ''a'']"] e(3,4)
  show ?thesis
    by (intro conjI)
qed

subsection \<open>A write that fails\<close>

text \<open>
  Claim C5, as amended. When the write at position \<open>i\<close> of the operations in flight
  fails, its completion throws the error it was given (line 113), and the throw is its
  only effect: the six maps are as they were for every key, the key of the write
  included. The mark of the key is not deleted and a content queued for it is not drained.
\<close>

theorem C5_write_failure:
  assumes "i < length (inflight s)" and "inflight s ! i = WriteFile k v"
  shows "step cfg (IoDone i (Err e)) s =
           Inl (e, s\<lparr>inflight := take i (inflight s) @ drop (Suc i) (inflight s)\<rparr>)
       \<and> thrown (step cfg (IoDone i (Err e)) s) = Some e
       \<and> isFileAccessing (final (step cfg (IoDone i (Err e)) s)) = isFileAccessing s
       \<and> hasQueue (final (step cfg (IoDone i (Err e)) s)) = hasQueue s
       \<and> memoryCaches (final (step cfg (IoDone i (Err e)) s)) = memoryCaches s
       \<and> fileTimeLimits (final (step cfg (IoDone i (Err e)) s)) = fileTimeLimits s"
  using assms by (simp add: writeFile_done_def thrown_def final_def)

text \<open>The theorem in a run with a file time to live of 5 and a memory time to live of 10.
  The file of \<open>''a''\<close> is read at time 0 and \<open>v0\<close> is queued; at time 5 the file timer
  issues its read, which marks the key; a \<^verbatim>\<open>set\<close> of \<open>v1\<close> on the marked key issues a
  write, and the write fails while the read is still in flight.\<close>

theorem C5_write_failure_witness:
  "1 < length (inflight (final (run short_file
        [CallGet ''a'', IoDone 0 (Ok d0), CallSet ''a'' v0, Tick 5, FireFile ''a'',
         CallSet ''a'' v1] init)))
   \<and> inflight (final (run short_file
        [CallGet ''a'', IoDone 0 (Ok d0), CallSet ''a'' v0, Tick 5, FireFile ''a'',
         CallSet ''a'' v1] init)) ! 1 = WriteFile ''a'' v1
   \<and> thrown (step short_file (IoDone 1 (Err EIO)) (final (run short_file
        [CallGet ''a'', IoDone 0 (Ok d0), CallSet ''a'' v0, Tick 5, FireFile ''a'',
         CallSet ''a'' v1] init))) = Some EIO"
proof -
  let ?s = "final (run short_file
        [CallGet ''a'', IoDone 0 (Ok d0), CallSet ''a'' v0, Tick 5, FireFile ''a'',
         CallSet ''a'' v1] init)"
  have i: "inflight ?s = [ReadFile ''a'' EvictRead, WriteFile ''a'' v1]"
    by (simp add: cache_defs example_defs del: not_None_eq)
  have a: "1 < length (inflight ?s)"
    by (simp only: i) simp
  have b: "inflight ?s ! 1 = WriteFile ''a'' v1"
    by (simp only: i) simp
  from C5_write_failure [OF a b, of short_file EIO]
  have c: "thrown (step short_file (IoDone 1 (Err EIO)) ?s) = Some EIO"
    by (rule conjunct1 [OF conjunct2])
  from a b c show ?thesis
    by (intro conjI)
qed

text \<open>Against the claim as it stands. In the run above the failed write leaves \<open>''a''\<close>
  marked and \<open>v0\<close> queued. In a second run, with the defaults, a \<^verbatim>\<open>get\<close> and a
  \<^verbatim>\<open>set\<close> of \<open>v1\<close> put two reads in flight; both fail, and the second issues the
  write of \<open>v1\<close>; \<open>v0\<close> is queued; the write, the only operation in flight, fails:
  \<open>v0\<close> stays queued with nothing left in flight to drain it.\<close>

theorem C5_counterexample:
  "thrown (run short_file
      [CallGet ''a'', IoDone 0 (Ok d0), CallSet ''a'' v0, Tick 5, FireFile ''a'',
       CallSet ''a'' v1, IoDone 1 (Err EIO)] init) = Some EIO
   \<and> isFileAccessing (final (run short_file
      [CallGet ''a'', IoDone 0 (Ok d0), CallSet ''a'' v0, Tick 5, FireFile ''a'',
       CallSet ''a'' v1, IoDone 1 (Err EIO)] init)) ''a'' = Some True
   \<and> hasQueue (final (run short_file
      [CallGet ''a'', IoDone 0 (Ok d0), CallSet ''a'' v0, Tick 5, FireFile ''a'',
       CallSet ''a'' v1, IoDone 1 (Err EIO)] init)) ''a'' = Some v0
   \<and> inflight (final (run defaults
      [CallGet ''a'', CallSet ''a'' v1, IoDone 0 (Err ENOENT), IoDone 0 (Err ENOENT),
       CallSet ''a'' v0] init)) = [WriteFile ''a'' v1]
   \<and> thrown (run defaults
      [CallGet ''a'', CallSet ''a'' v1, IoDone 0 (Err ENOENT), IoDone 0 (Err ENOENT),
       CallSet ''a'' v0, IoDone 0 (Err EIO)] init) = Some EIO
   \<and> hasQueue (final (run defaults
      [CallGet ''a'', CallSet ''a'' v1, IoDone 0 (Err ENOENT), IoDone 0 (Err ENOENT),
       CallSet ''a'' v0, IoDone 0 (Err EIO)] init)) ''a'' = Some v0
   \<and> inflight (final (run defaults
      [CallGet ''a'', CallSet ''a'' v1, IoDone 0 (Err ENOENT), IoDone 0 (Err ENOENT),
       CallSet ''a'' v0, IoDone 0 (Err EIO)] init)) = []"
  by (simp add: cache_defs example_defs del: not_None_eq)

subsection \<open>Reading a key just written\<close>

text \<open>
  Claim C6 says that \<^verbatim>\<open>set\<close> of a key followed at once by \<^verbatim>\<open>get\<close> of the key gives a
  promise that resolves to the content written. In any state of a run from the empty
  cache, and for any key with no stored promise, \<^verbatim>\<open>set\<close> only queues the content, and
  the \<^verbatim>\<open>get\<close> that follows returns a new promise, pending on a read of the file. When
  the read fails the promise is resolved with \<^verbatim>\<open>null\<close>; when it succeeds the promise
  stays pending whatever events follow. In neither case is it resolved with the content
  written.
\<close>

theorem C6_set_then_get_misses_the_write:
  assumes "s = final (run cfg es0 init)" and "promiseCaches s k = None"
  shows "handler_set cfg k v s =
           s\<lparr>calls := calls s @ (if onSet cfg then [OnSet k v] else []),
             hasQueue := (hasQueue s)(k \<mapsto> v)\<rparr>
       \<and> fst (handler_get cfg k (handler_set cfg k v s)) = length (promises s)
       \<and> promises (snd (handler_get cfg k (handler_set cfg k v s))) ! length (promises s) = Pending
       \<and> inflight (snd (handler_get cfg k (handler_set cfg k v s))) =
           inflight s @ [ReadFile k (GetRead (length (promises s)))]
       \<and> promises (final (step cfg (IoDone (length (inflight s)) (Err e))
             (snd (handler_get cfg k (handler_set cfg k v s))))) ! length (promises s)
           = Resolved Null
       \<and> promises (final (run cfg (IoDone (length (inflight s)) (Ok d) # es)
             (snd (handler_get cfg k (handler_set cfg k v s))))) ! length (promises s)
           = Pending"
proof -
  note u = reachable_unread_key [of cfg es0 k, folded assms(1), OF assms(2)]
  let ?s1 = "handler_set cfg k v s"
  have s1: "?s1 = s\<lparr>calls := calls s @ (if onSet cfg then [OnSet k v] else []),
             hasQueue := (hasQueue s)(k \<mapsto> v)\<rparr>"
    using u(2) by (rule handler_set_idle)
  have h: "promiseCaches ?s1 k = None" "memoryCaches ?s1 k = None"
    "\<not> list_ex (resolves (length (promises ?s1))) (inflight ?s1)"
    "length (promises ?s1) = length (promises s)" "inflight ?s1 = inflight s"
    "promises ?s1 = promises s"
    using assms(2) u by (simp_all add: s1)
  from first_get [OF h(1,2), of cfg]
  have 1: "fst (handler_get cfg k ?s1) = length (promises s)"
    and 2: "promises (snd (handler_get cfg k ?s1)) ! length (promises s) = Pending"
    and 3: "inflight (snd (handler_get cfg k ?s1)) =
           inflight s @ [ReadFile k (GetRead (length (promises s)))]"
    by (simp_all add: h(5,6))
  from first_get_read_outcomes(4) [OF h(1,2), of cfg e]
  have 4: "promises (final (step cfg (IoDone (length (inflight s)) (Err e))
             (snd (handler_get cfg k ?s1)))) ! length (promises s) = Resolved Null"
    by (simp only: h(4,5))
  from first_get_never_resolved [OF h(1,2,3), of cfg d es]
  have 5: "promises (final (run cfg (IoDone (length (inflight s)) (Ok d) # es)
             (snd (handler_get cfg k ?s1)))) ! length (promises s) = Pending"
    by (simp only: h(4,5))
  from s1 1 2 3 4 5 show ?thesis
    by (intro conjI)
qed

text \<open>The theorem on the empty cache: \<^verbatim>\<open>set\<close> of \<open>''a''\<close> with \<open>v1\<close>, then
  \<^verbatim>\<open>get\<close> of \<open>''a''\<close>, which returns promise 0.\<close>

theorem C6_set_then_get_misses_the_write_witness:
  "init = final (run defaults [] init)
   \<and> promiseCaches init ''a'' = None
   \<and> fst (handler_get defaults ''a'' (handler_set defaults ''a'' v1 init)) = 0
   \<and> promises (final (run defaults [IoDone 0 (Ok d0), Tick 10000, FireMemory ''a'']
        (snd (handler_get defaults ''a'' (handler_set defaults ''a'' v1 init))))) ! 0 = Pending
   \<and> promises (final (run defaults [CallSet ''a'' v1, CallGet ''a''] init)) = [Pending]
   \<and> inflight (final (run defaults [CallSet ''a'' v1, CallGet ''a''] init))
       = [ReadFile ''a'' (GetRead 0)]
   \<and> promises (final (run defaults
        [CallSet ''a'' v1, CallGet ''a'', IoDone 0 (Err ENOENT)] init)) = [Resolved Null]
   \<and> promises (final (run defaults
        [CallSet ''a'' v1, CallGet ''a'', IoDone 0 (Ok d0)] init)) = [Pending]
   \<and> inflight (final (run defaults
        [CallSet ''a'' v1, CallGet ''a'', IoDone 0 (Ok d0)] init)) = []"
proof -
  have a: "init = final (run defaults [] init)"
    by (simp add: final_def)
  have b: "promiseCaches init ''a'' = None"
    and l: "length (promises init) = 0" "length (inflight init) = 0"
    by (simp_all add: init_def)
  note t = C6_set_then_get_misses_the_write [OF a b,
      of v1 ENOENT d0 "[Tick 10000, FireMemory ''a'']", unfolded l]
  from t have 1: "fst (handler_get defaults ''a'' (handler_set defaults ''a'' v1 init)) = 0"
    and 2: "promises (final (run defaults [IoDone 0 (Ok d0), Tick 10000, FireMemory ''a'']
        (snd (handler_get defaults ''a'' (handler_set defaults ''a'' v1 init))))) ! 0 = Pending"
    by blast+
  have 3: "promises (final (run defaults [CallSet ''a'' v1, CallGet ''a''] init)) = [Pending]"
    "inflight (final (run defaults [CallSet ''a'' v1, CallGet ''a''] init))
       = [ReadFile ''a'' (GetRead 0)]"
    "promises (final (run defaults
        [CallSet ''a'' v1, CallGet ''a'', IoDone 0 (Err ENOENT)] init)) = [Resolved Null]"
    "promises (final (run defaults
        [CallSet ''a'' v1, CallGet ''a'', IoDone 0 (Ok d0)] init)) = [Pending]"
    "inflight (final (run defaults
        [CallSet ''a'' v1, CallGet ''a'', IoDone 0 (Ok d0)] init)) = []"
    by (simp_all add: cache_defs example_defs del: not_None_eq)
  from a b 1 2 3 show ?thesis
    by (intro conjI)
qed

subsection \<open>The file tier\<close>

text \<open>
  Claim C7 says that the file timer of a key is skipped while an operation of the key is
  in flight, and that otherwise the file is deleted, after its content has been read and
  given to \<^verbatim>\<open>onFileRemove\<close> when there is one. In any state of a run from the empty
  cache in which nothing has been thrown, a key whose file timer is due is not marked, so
  the firing is never skipped, whatever is in flight. Without \<^verbatim>\<open>onFileRemove\<close> the
  firing marks the key and throws the TypeError of \<^verbatim>\<open>fs.rm\<close>: nothing is handed to the
  file system and the slot of the timer is not emptied. With \<^verbatim>\<open>onFileRemove\<close> the
  firing issues a read of the file and empties the slot; when the read succeeds, the
  observer is called with the key and the bytes read, and then the same TypeError is
  thrown, with the key marked; when the read fails, the completion does nothing for the
  file. The file is not removed in any case.
\<close>

theorem C7_file_is_never_removed:
  assumes "run cfg es0 init = Inr s" and "fileTimeLimits s k = Some due" and "due \<le> now s"
  shows "isFileAccessing s k = None
       \<and> (\<not> onFileRemove cfg \<longrightarrow>
            step cfg (FireFile k) s =
              Inl (ERR_INVALID_ARG_TYPE,
                   s\<lparr>isFileAccessing := (isFileAccessing s)(k \<mapsto> True)\<rparr>))
       \<and> (onFileRemove cfg \<longrightarrow>
            step cfg (FireFile k) s =
              Inr (s\<lparr>isFileAccessing := (isFileAccessing s)(k \<mapsto> True),
                      inflight := inflight s @ [ReadFile k EvictRead],
                      fileTimeLimits := (fileTimeLimits s)(k := None)\<rparr>))
       \<and> readFile_done cfg k EvictRead (Ok d) t =
            Inl (ERR_INVALID_ARG_TYPE,
                 t\<lparr>isFileAccessing := (isFileAccessing t)(k \<mapsto> True),
                   calls := calls t @ [OnFileRemove k d]\<rparr>)
       \<and> readFile_done cfg k EvictRead (Err e) t =
            Inr (onFileAccessComplete cfg k
                   (t\<lparr>isFileAccessing := (isFileAccessing t)(k := None)\<rparr>))"
proof -
  have m: "isFileAccessing s k = None"
  proof (rule ccontr)
    assume "isFileAccessing s k \<noteq> None"
    with assms(1) have "fileTimeLimits s k = None"
      by (rule reachable_marked_key_has_no_file_timer)
    with assms(2) show False
      by simp
  qed
  from m assms(2,3)
  have 1: "\<not> onFileRemove cfg \<longrightarrow>
            step cfg (FireFile k) s =
              Inl (ERR_INVALID_ARG_TYPE,
                   s\<lparr>isFileAccessing := (isFileAccessing s)(k \<mapsto> True)\<rparr>)"
    and 2: "onFileRemove cfg \<longrightarrow>
            step cfg (FireFile k) s =
              Inr (s\<lparr>isFileAccessing := (isFileAccessing s)(k \<mapsto> True),
                      inflight := inflight s @ [ReadFile k EvictRead],
                      fileTimeLimits := (fileTimeLimits s)(k := None)\<rparr>)"
    by (simp_all add: fileTimeout_def removeFile_def readFile_def)
  have 3: "readFile_done cfg k EvictRead (Ok d) t =
            Inl (ERR_INVALID_ARG_TYPE,
                 t\<lparr>isFileAccessing := (isFileAccessing t)(k \<mapsto> True),
                   calls := calls t @ [OnFileRemove k d]\<rparr>)"
    by (rule readFile_done_EvictRead_Ok)
  have 4: "readFile_done cfg k EvictRead (Err e) t =
            Inr (onFileAccessComplete cfg k
                   (t\<lparr>isFileAccessing := (isFileAccessing t)(k := None)\<rparr>))"
    by (simp add: readFile_done_def)
  from m 1 2 3 4 show ?thesis
    by (intro conjI)
qed

text \<open>The theorem in runs in which the file of \<open>''a''\<close> is read once and left alone for
  \<^verbatim>\<open>fileTTL\<close>. With the defaults the file timer throws and nothing is in flight. With
  the observers set it issues a read; when the read succeeds the observer is called and
  the run ends with the TypeError, nothing in flight. With a second read of \<open>''a''\<close>
  still in flight when the timer fires, the firing is not skipped: it issues its read
  beside the other.\<close>

theorem C7_file_is_never_removed_witness:
  "thrown (run defaults left_alone init) = None
   \<and> fileTimeLimits (final (run defaults left_alone init)) ''a'' = Some 600000
   \<and> now (final (run defaults left_alone init)) = 600000
   \<and> \<not> onFileRemove defaults
   \<and> thrown (step defaults (FireFile ''a'') (final (run defaults left_alone init)))
       = Some ERR_INVALID_ARG_TYPE
   \<and> inflight (final (step defaults (FireFile ''a'') (final (run defaults left_alone init)))) = []
   \<and> fileTimeLimits (final (step defaults (FireFile ''a'') (final (run defaults left_alone init))))
        ''a'' = Some 600000
   \<and> thrown (run observing left_alone init) = None
   \<and> onFileRemove observing
   \<and> inflight (final (step observing (FireFile ''a'') (final (run observing left_alone init))))
       = [ReadFile ''a'' EvictRead]
   \<and> thrown (run observing (left_alone @ [FireFile ''a'', IoDone 0 (Ok d0)]) init)
       = Some ERR_INVALID_ARG_TYPE
   \<and> calls (final (run observing (left_alone @ [FireFile ''a'', IoDone 0 (Ok d0)]) init))
       = [OnMemoryRemove ''a'' (Some d0), OnFileRemove ''a'' d0]
   \<and> inflight (final (run observing (left_alone @ [FireFile ''a'', IoDone 0 (Ok d0)]) init)) = []
   \<and> thrown (run observing left_reading init) = None
   \<and> inflight (final (run observing left_reading init)) = [ReadFile ''a'' (SetRead v1)]
   \<and> inflight (final (step observing (FireFile ''a'') (final (run observing left_reading init))))
       = [ReadFile ''a'' (SetRead v1), ReadFile ''a'' EvictRead]"
proof -
  let ?d = "final (run defaults left_alone init)"
  let ?o = "final (run observing left_alone init)"
  let ?r = "final (run observing left_reading init)"
  have td: "thrown (run defaults left_alone init) = None"
    and to: "thrown (run observing left_alone init) = None"
    and tr: "thrown (run observing left_reading init) = None"
    by (simp_all add: cache_defs example_defs del: not_None_eq)
  have d: "fileTimeLimits ?d ''a'' = Some 600000" "now ?d = 600000" "inflight ?d = []"
    and o: "fileTimeLimits ?o ''a'' = Some 600000" "now ?o = 600000" "inflight ?o = []"
    and r: "fileTimeLimits ?r ''a'' = Some 600000" "now ?r = 600000"
      "inflight ?r = [ReadFile ''a'' (SetRead v1)]"
    and c: "\<not> onFileRemove defaults" "onFileRemove observing"
    by (simp_all add: cache_defs example_defs del: not_None_eq)
  have le: "600000 \<le> now ?d" "600000 \<le> now ?o" "600000 \<le> now ?r"
    by (simp_all only: d(2) o(2) r(2) order_refl)
  from C7_file_is_never_removed [OF returned [OF td] d(1) le(1)] c(1)
  have sd: "step defaults (FireFile ''a'') ?d =
      Inl (ERR_INVALID_ARG_TYPE, ?d\<lparr>isFileAccessing := (isFileAccessing ?d)(''a'' \<mapsto> True)\<rparr>)"
    by blast
  have 1: "thrown (step defaults (FireFile ''a'') ?d) = Some ERR_INVALID_ARG_TYPE"
    and 2: "inflight (final (step defaults (FireFile ''a'') ?d)) = []"
    and 3: "fileTimeLimits (final (step defaults (FireFile ''a'') ?d)) ''a'' = Some 600000"
    unfolding sd by (simp_all add: final_thrown d)
  from C7_file_is_never_removed [OF returned [OF to] o(1) le(2)] c(2)
  have so: "step observing (FireFile ''a'') ?o =
      Inr (?o\<lparr>isFileAccessing := (isFileAccessing ?o)(''a'' \<mapsto> True),
              inflight := inflight ?o @ [ReadFile ''a'' EvictRead],
              fileTimeLimits := (fileTimeLimits ?o)(''a'' := None)\<rparr>)"
    by blast
  have 4: "inflight (final (step observing (FireFile ''a'') ?o)) = [ReadFile ''a'' EvictRead]"
    unfolding so by (simp add: final_thrown o)
  from C7_file_is_never_removed [OF returned [OF tr] r(1) le(3)] c(2)
  have sr: "step observing (FireFile ''a'') ?r =
      Inr (?r\<lparr>isFileAccessing := (isFileAccessing ?r)(''a'' \<mapsto> True),
              inflight := inflight ?r @ [ReadFile ''a'' EvictRead],
              fileTimeLimits := (fileTimeLimits ?r)(''a'' := None)\<rparr>)"
    by blast
  have 5: "inflight (final (step observing (FireFile ''a'') ?r))
       = [ReadFile ''a'' (SetRead v1), ReadFile ''a'' EvictRead]"
    unfolding sr by (simp add: final_thrown r)
  have 6: "thrown (run observing (left_alone @ [FireFile ''a'', IoDone 0 (Ok d0)]) init)
       = Some ERR_INVALID_ARG_TYPE"
    "calls (final (run observing (left_alone @ [FireFile ''a'', IoDone 0 (Ok d0)]) init))
       = [OnMemoryRemove ''a'' (Some d0), OnFileRemove ''a'' d0]"
    "inflight (final (run observing (left_alone @ [FireFile ''a'', IoDone 0 (Ok d0)]) init)) = []"
    by (simp_all add: cache_defs example_defs del: not_None_eq)
  from td d(1,2) c(1) 1 2 3 to c(2) 4 6 tr r(3) 5 show ?thesis
    by (intro conjI)
qed

subsection \<open>A read of a key that has a memory value\<close>

text \<open>
  Claim C8 says that \<^verbatim>\<open>get\<close> of a key with a memory value and no pending read future
  resolves with the memory value and arms the memory timer anew, leaving the file timer.
  In any state of a run from the empty cache, a key with a memory value has a stored
  promise, and \<^verbatim>\<open>get\<close> returns that promise and changes nothing: the promise is
  pending or resolved with \<^verbatim>\<open>null\<close> as it was, not resolved with the memory value,
  and the memory timer is not armed anew. The file timer is left as it is, as the claim
  says.
\<close>

theorem C8_memory_value_is_not_served:
  assumes "s = final (run cfg es0 init)" and "memoryCaches s k = Some v"
  shows "promiseCaches s k \<noteq> None
       \<and> handler_get cfg k s = (the (promiseCaches s k), s)
       \<and> the (promiseCaches s k) < length (promises s)
       \<and> promises s ! the (promiseCaches s k) \<in> {Pending, Resolved Null}
       \<and> memoryTimeLimits (snd (handler_get cfg k s)) = memoryTimeLimits s
       \<and> fileTimeLimits (snd (handler_get cfg k s)) = fileTimeLimits s"
proof -
  from assms reachable_memory_value_has_promise [of cfg es0 k]
  obtain p where p: "promiseCaches s k = Some p"
    by auto
  then have g: "handler_get cfg k s = (p, s)"
    by (rule handler_get_stored)
  from stored_unserved_reachable [of cfg es0 k] assms(1) p
  have u: "p < length (promises s)" "promises s ! p \<in> {Pending, Resolved Null}"
    by (simp_all add: stored_unserved_def)
  from p g u show ?thesis
    by simp
qed

text \<open>The theorem in two runs. After a \<^verbatim>\<open>get\<close> of \<open>''a''\<close> whose read succeeds with
  \<open>d0\<close>, the memory value is \<open>d0\<close> and a second \<^verbatim>\<open>get\<close> returns promise 0, which
  is pending. After a \<^verbatim>\<open>get\<close> and a \<^verbatim>\<open>set\<close> of \<open>v1\<close> whose reads fail and whose
  write succeeds, the memory value is \<open>v1\<close> and no future is pending, and a second
  \<^verbatim>\<open>get\<close> returns promise 0, which is resolved with \<^verbatim>\<open>null\<close>; the memory timer
  stays due at 10000.\<close>

theorem C8_memory_value_is_not_served_witness:
  "memoryCaches (final (run defaults [CallGet ''a'', IoDone 0 (Ok d0)] init)) ''a'' = Some d0
   \<and> handler_get defaults ''a'' (final (run defaults [CallGet ''a'', IoDone 0 (Ok d0)] init))
       = (0, final (run defaults [CallGet ''a'', IoDone 0 (Ok d0)] init))
   \<and> promises (final (run defaults [CallGet ''a'', IoDone 0 (Ok d0)] init)) = [Pending]
   \<and> memoryCaches (final (run defaults written init)) ''a'' = Some v1
   \<and> handler_get defaults ''a'' (final (run defaults written init))
       = (0, final (run defaults written init))
   \<and> promises (final (run defaults written init)) = [Resolved Null]
   \<and> inflight (final (run defaults written init)) = []
   \<and> memoryTimeLimits (final (run defaults (written @ [Tick 7]) init)) ''a'' = Some (Some 10000)
   \<and> memoryTimeLimits (final (run defaults (written @ [Tick 7, CallGet ''a'']) init)) ''a''
       = Some (Some 10000)"
proof -
  let ?a = "final (run defaults [CallGet ''a'', IoDone 0 (Ok d0)] init)"
  let ?w = "final (run defaults written init)"
  have a: "memoryCaches ?a ''a'' = Some d0" "promiseCaches ?a ''a'' = Some 0"
    "promises ?a = [Pending]"
    and w: "memoryCaches ?w ''a'' = Some v1" "promiseCaches ?w ''a'' = Some 0"
    "promises ?w = [Resolved Null]" "inflight ?w = []"
    and t: "memoryTimeLimits (final (run defaults (written @ [Tick 7]) init)) ''a''
        = Some (Some 10000)"
    "memoryTimeLimits (final (run defaults (written @ [Tick 7, CallGet ''a'']) init)) ''a''
        = Some (Some 10000)"
    by (simp_all add: cache_defs example_defs del: not_None_eq)
  from C8_memory_value_is_not_served [OF refl a(1)]
  have "handler_get defaults ''a'' ?a = (the (promiseCaches ?a ''a''), ?a)"
    by blast
  then have 1: "handler_get defaults ''a'' ?a = (0, ?a)"
    by (simp only: a(2) option.sel)
  from C8_memory_value_is_not_served [OF refl w(1)]
  have "handler_get defaults ''a'' ?w = (the (promiseCaches ?w ''a''), ?w)"
    by blast
  then have 2: "handler_get defaults ''a'' ?w = (0, ?w)"
    by (simp only: w(2) option.sel)
  from a(1) 1 a(3) w(1) 2 w(3,4) t show ?thesis
    by (intro conjI)
qed

subsection \<open>The memory tier\<close>


subsection \<open>Draining the queue calls the observer again\<close>

text \<open>
  Claim C10. When a completion finds a content queued for its key, it hands the content
  to \<^verbatim>\<open>handler.set\<close> (the assignment to the proxy of line 126), so \<^verbatim>\<open>onSet\<close>, when
  there is one, is called once more with the same key and content. This holds for every
  completion that reaches \<^verbatim>\<open>onFileAccessComplete\<close>: that of a write that succeeds, and
  that of a read whose callback returns, which are the reads of \<^verbatim>\<open>handler.set\<close> and of
  \<^verbatim>\<open>handler.get\<close> with any result and the read of the file timer when it fails. One
  \<^verbatim>\<open>set\<close> of a caller can thus reach the observer twice.
\<close>

theorem C10_drain_calls_onSet_again:
  assumes "hasQueue s k = Some v" and "onSet cfg"
  shows "onFileAccessComplete cfg k s =
           (handler_set cfg k v (s\<lparr>isFileAccessing := (isFileAccessing s)(k := None)\<rparr>))
             \<lparr>hasQueue := (hasQueue s)(k := None)\<rparr>
       \<and> calls (onFileAccessComplete cfg k s) = calls s @ [OnSet k v]
       \<and> (thrown (readFile_done cfg k cb r s) = None \<longrightarrow>
            last (calls (final (readFile_done cfg k cb r s))) = OnSet k v)
       \<and> thrown (readFile_done cfg k (SetRead c) r s) = None
       \<and> thrown (readFile_done cfg k (GetRead p) r s) = None
       \<and> thrown (readFile_done cfg k EvictRead (Err e) s) = None
       \<and> map_sum id calls (writeFile_done cfg k (Ok x) s) = Inr (calls s @ [OnSet k v])"
proof (intro conjI)
  show "onFileAccessComplete cfg k s =
           (handler_set cfg k v (s\<lparr>isFileAccessing := (isFileAccessing s)(k := None)\<rparr>))
             \<lparr>hasQueue := (hasQueue s)(k := None)\<rparr>"
    using assms by (simp add: onFileAccessComplete_eq handler_set_idle)
  show "calls (onFileAccessComplete cfg k s) = calls s @ [OnSet k v]"
    using assms by (simp add: onFileAccessComplete_eq)
  show "thrown (readFile_done cfg k cb r s) = None \<longrightarrow>
            last (calls (final (readFile_done cfg k cb r s))) = OnSet k v"
    using assms
    by (cases cb; cases r)
       (simp_all add: readFile_done_def thrown_def final_def onFileAccessComplete_eq
          writeFile_def removeFile_def resolve_def scheduleRemoveMemoryCache_def
          scheduleRemoveFileCache_def)
  show "map_sum id calls (writeFile_done cfg k (Ok x) s) = Inr (calls s @ [OnSet k v])"
    using assms
    by (simp add: writeFile_done_def onFileAccessComplete_eq scheduleRemoveFileCache_def)
qed (rule readFile_done_returns)+

text \<open>The theorem at the state reached by one \<^verbatim>\<open>set\<close> and one \<^verbatim>\<open>get\<close> of
  \<open>''a''\<close>, whose read then fails: the observer has been called twice with the content
  of the one \<^verbatim>\<open>set\<close>.\<close>

theorem C10_drain_calls_onSet_again_witness:
  "hasQueue (final (run observing [CallSet ''a'' v1, CallGet ''a''] init)) ''a'' = Some v1
   \<and> onSet observing
   \<and> calls (onFileAccessComplete observing ''a''
        (final (run observing [CallSet ''a'' v1, CallGet ''a''] init)))
       = [OnSet ''a'' v1, OnSet ''a'' v1]
   \<and> calls (final (run observing [CallSet ''a'' v1, CallGet ''a'', IoDone 0 (Err ENOENT)] init))
       = [OnSet ''a'' v1, OnSet ''a'' v1]"
proof -
  have h: "hasQueue (final (run observing [CallSet ''a'' v1, CallGet ''a''] init)) ''a'' = Some v1"
    by (simp add: cache_defs example_defs del: not_None_eq)
  have o: "onSet observing"
    by (simp add: observing_def)
  have c: "calls (final (run observing [CallSet ''a'' v1, CallGet ''a''] init)) = [OnSet ''a'' v1]"
    by (simp add: cache_defs example_defs del: not_None_eq)
  have r: "calls (final (run observing [CallSet ''a'' v1, CallGet ''a'', IoDone 0 (Err ENOENT)] init))
       = [OnSet ''a'' v1, OnSet ''a'' v1]"
    by (simp add: cache_defs example_defs del: not_None_eq)
  from C10_drain_calls_onSet_again [OF h o]
  have "calls (onFileAccessComplete observing ''a''
          (final (run observing [CallSet ''a'' v1, CallGet ''a''] init)))
        = calls (final (run observing [CallSet ''a'' v1, CallGet ''a''] init)) @ [OnSet ''a'' v1]"
    by (rule conjunct1 [OF conjunct2])
  then have d: "calls (onFileAccessComplete observing ''a''
          (final (run observing [CallSet ''a'' v1, CallGet ''a''] init)))
        = [OnSet ''a'' v1, OnSet ''a'' v1]"
    by (simp only: c append.simps)
  from h o d r show ?thesis
    by (intro conjI)
qed

end
